theory Spec2Isabelle
  imports Main "HOL-Library.Multiset" "HOL-Library.List_Lexorder" "HOL-Library.Char_ord"
begin

section \<open>JavaScript strings\<close>

text \<open>
  A JavaScript string is a sequence of UTF-16 code units. The development covers the
  strings whose code units are all below 256 (ISO 8859-1), one \<^typ>\<open>char\<close> per code
  unit; on these strings \<open>String.prototype.toLowerCase\<close> and
  \<open>String.prototype.trim\<close> act code unit by code unit, as defined below.
\<close>

definition isWhiteSpace :: "char \<Rightarrow> bool" where
  \<comment> \<open>ECMAScript WhiteSpace and LineTerminator below 256: TAB, LF, VT, FF, CR, SP, NBSP.\<close>
  "isWhiteSpace c = (of_char c \<in> {9, 10, 11, 12, 13, 32, 160 :: nat})"

definition isUpper :: "char \<Rightarrow> bool" where
  \<comment> \<open>The code units below 256 that have a lowercase mapping: A-Z, and U+00C0-U+00DE
      without the multiplication sign U+00D7.\<close>
  "isUpper c =
     (let n = of_char c :: nat
      in (65 \<le> n \<and> n \<le> 90) \<or> (192 \<le> n \<and> n \<le> 222 \<and> n \<noteq> 215))"

definition toLower_char :: "char \<Rightarrow> char" where
  "toLower_char c = (if isUpper c then char_of (of_char c + 32 :: nat) else c)"

definition toLowerCase :: "string \<Rightarrow> string" where
  "toLowerCase s = map toLower_char s"

definition trim :: "string \<Rightarrow> string" where
  "trim s = rev (dropWhile isWhiteSpace (rev (dropWhile isWhiteSpace s)))"

section \<open>Tag normalizer (src/utils/tags.ts)\<close>

text \<open>
  A JavaScript \<open>Set\<close> keeps its elements in insertion order; adding an element that
  is already present changes nothing. \<open>Array.from(new Set(xs))\<close> is therefore the
  list of first occurrences.
\<close>

definition Set_add :: "'a list \<Rightarrow> 'a \<Rightarrow> 'a list" where
  "Set_add s x = (if x \<in> set s then s else s @ [x])"

definition new_Set :: "'a list \<Rightarrow> 'a list" where
  "new_Set xs = foldl Set_add [] xs"

definition Boolean_str :: "string \<Rightarrow> bool" where
  \<comment> \<open>\<open>Boolean(s)\<close> on a string: only the empty string is falsy.\<close>
  "Boolean_str s = (s \<noteq> [])"

definition cleanTags :: "string list \<Rightarrow> string list" where
  "cleanTags tags =
     filter Boolean_str (new_Set (map (\<lambda>t. trim (toLowerCase t)) tags))"

text \<open>
  The normalizer as the specification words it: lowercase and trim each element, keep
  the first occurrence of each value, discard the empty strings.
\<close>

fun first_occurrences :: "'a list \<Rightarrow> 'a list" where
  "first_occurrences [] = []"
| "first_occurrences (x # xs) = x # first_occurrences (filter (\<lambda>y. y \<noteq> x) xs)"

definition normalize_spec :: "string list \<Rightarrow> string list" where
  "normalize_spec L =
     filter (\<lambda>s. s \<noteq> []) (first_occurrences (map (\<lambda>t. trim (toLowerCase t)) L))"


section \<open>Identifier validator\<close>

text \<open>
  \<open>validate\<close> of the \<open>uuid\<close> package tests its argument against the regular
  expression, case-insensitively,
  \<^verbatim>\<open>^(?:[0-9a-f]{8}-[0-9a-f]{4}-[1-8][0-9a-f]{3}-[89ab][0-9a-f]{3}-[0-9a-f]{12}|0{8}-0{4}-0{4}-0{4}-0{12}|f{8}-f{4}-f{4}-f{4}-f{12})$\<close>.
  The results below use one fact about the strings it accepts: none consists of
  whitespace only.
\<close>

datatype char_class = Hex | Dash | Version | Variant | Zero | Eff

fun in_class :: "char_class \<Rightarrow> char \<Rightarrow> bool" where
  "in_class Hex c = (c \<in> set ''0123456789abcdefABCDEF'')"
| "in_class Dash c = (c = CHR ''-'')"
| "in_class Version c = (c \<in> set ''12345678'')"
| "in_class Variant c = (c \<in> set ''89abAB'')"
| "in_class Zero c = (c = CHR ''0'')"
| "in_class Eff c = (c \<in> set ''fF'')"

definition uuid_groups :: "char_class list \<Rightarrow> char_class list \<Rightarrow> char_class \<Rightarrow> char_class list" where
  "uuid_groups g3 g4 rest =
     replicate 8 rest @ [Dash] @ replicate 4 rest @ [Dash] @ g3 @ [Dash] @ g4 @ [Dash] @
     replicate 12 rest"

definition isValidUUID :: "string \<Rightarrow> bool" where
  "isValidUUID s =
     (list_all2 in_class (uuid_groups (Version # replicate 3 Hex) (Variant # replicate 3 Hex) Hex) s \<or>
      list_all2 in_class (uuid_groups (replicate 4 Zero) (replicate 4 Zero) Zero) s \<or>
      list_all2 in_class (uuid_groups (replicate 4 Eff) (replicate 4 Eff) Eff) s)"

section \<open>Request values\<close>

text \<open>
  The routes declare no schema, so a handler receives as body whatever JSON value the
  client sent; \<open>None\<close> stands for \<open>undefined\<close> (no body, or a property that is not
  there). \<open>JObj\<close> lists the properties of an object, the first pair of a key being
  its property. Numbers are only ever tested for truthiness here. Path parameters are
  strings.
\<close>

datatype json =
    JNull
  | JBool bool
  | JNum int
  | JStr string
  | JArr "json list"
  | JObj "(string \<times> json) list"

datatype exn =
    TypeError
  | Error string
  | PrismaError string

fun truthy :: "json option \<Rightarrow> bool" where
  "truthy None = False"
| "truthy (Some JNull) = False"
| "truthy (Some (JBool b)) = b"
| "truthy (Some (JNum n)) = (n \<noteq> 0)"
| "truthy (Some (JStr s)) = (s \<noteq> [])"
| "truthy (Some (JArr xs)) = True"
| "truthy (Some (JObj kvs)) = True"

definition nullish :: "json option \<Rightarrow> bool" where
  \<comment> \<open>\<open>undefined\<close> or \<open>null\<close>: reading a property of either throws a TypeError\<close>
  "nullish v = (v = None \<or> v = Some JNull)"

fun get_prop :: "json option \<Rightarrow> string \<Rightarrow> json option" where
  \<comment> \<open>\<open>v.k\<close> on a value that is not nullish, for the property names read by the
      handlers (\<open>title\<close>, \<open>content\<close>, \<open>authorId\<close>, \<open>tags\<close>, \<open>name\<close>), which no prototype
      of a JSON value defines.\<close>
  "get_prop (Some (JObj kvs)) k = map_of kvs k"
| "get_prop v k = None"

fun Object_keys_length :: "json option \<Rightarrow> exn + nat" where
  "Object_keys_length None = Inl TypeError"
| "Object_keys_length (Some JNull) = Inl TypeError"
| "Object_keys_length (Some (JBool b)) = Inr 0"
| "Object_keys_length (Some (JNum n)) = Inr 0"
| "Object_keys_length (Some (JStr s)) = Inr (length s)"
| "Object_keys_length (Some (JArr xs)) = Inr (length xs)"
| "Object_keys_length (Some (JObj kvs)) = Inr (length (remdups (map fst kvs)))"

fun call_trim :: "json option \<Rightarrow> exn + string" where
  \<comment> \<open>\<open>v.trim()\<close>: only a string has the method.\<close>
  "call_trim (Some (JStr s)) = Inr (trim s)"
| "call_trim v = Inl TypeError"

definition blank :: "json option \<Rightarrow> exn + bool" where
  \<comment> \<open>The condition \<open>!v || v.trim() === ""\<close>.\<close>
  "blank v =
     (if \<not> truthy v then Inr True
      else case call_trim v of Inl x \<Rightarrow> Inl x | Inr t \<Rightarrow> Inr (t = []))"

fun isArray :: "json option \<Rightarrow> bool" where
  "isArray (Some (JArr xs)) = True"
| "isArray v = False"

fun isValidUUID_value :: "json option \<Rightarrow> bool" where
  \<comment> \<open>\<open>validate\<close> answers false on anything that is not a string.\<close>
  "isValidUUID_value (Some (JStr s)) = isValidUUID s"
| "isValidUUID_value v = False"

fun strings_of :: "json list \<Rightarrow> string list option" where
  "strings_of [] = Some []"
| "strings_of (JStr s # js) = map_option ((#) s) (strings_of js)"
| "strings_of (j # js) = None"

definition cleanTags_value :: "json option \<Rightarrow> exn + string list" where
  \<comment> \<open>\<open>cleanTags(v)\<close> on a run-time value: \<open>v.map\<close> needs an array and
      \<open>t.toLowerCase()\<close> a string.\<close>
  "cleanTags_value v =
     (case v of
        Some (JArr xs) \<Rightarrow> (case strings_of xs of None \<Rightarrow> Inl TypeError | Some ss \<Rightarrow> Inr (cleanTags ss))
      | _ \<Rightarrow> Inl TypeError)"

fun split_comma :: "string \<Rightarrow> string list" where
  \<comment> \<open>\<open>s.split(",")\<close>\<close>
  "split_comma [] = [[]]"
| "split_comma (c # cs) =
     (if c = CHR '','' then [] # split_comma cs
      else case split_comma cs of [] \<Rightarrow> [[c]] | p # ps \<Rightarrow> (c # p) # ps)"

fun starts_with :: "string \<Rightarrow> string \<Rightarrow> bool" where
  "starts_with s [] = True"
| "starts_with [] (m # ms) = False"
| "starts_with (c # cs) (m # ms) = (c = m \<and> starts_with cs ms)"

fun str_includes :: "string \<Rightarrow> string \<Rightarrow> bool" where
  \<comment> \<open>\<open>s.includes(m)\<close>\<close>
  "str_includes [] m = (m = [])"
| "str_includes (c # cs) m = (starts_with (c # cs) m \<or> str_includes cs m)"

text \<open>
  The shapes of a field on which the presence test \<open>!v || v.trim() === ""\<close> is
  decided: it fails the field when the value is absent, \<open>null\<close>, \<open>false\<close>, zero
  or a string that is empty after trimming, and passes it when the value is a string
  that is not empty after trimming. On any other value \<open>v.trim\<close> is not a function.
\<close>

fun absent_or_blank :: "json option \<Rightarrow> bool" where
  "absent_or_blank None = True"
| "absent_or_blank (Some JNull) = True"
| "absent_or_blank (Some (JBool b)) = (\<not> b)"
| "absent_or_blank (Some (JNum n)) = (n = 0)"
| "absent_or_blank (Some (JStr s)) = (trim s = [])"
| "absent_or_blank (Some (JArr xs)) = False"
| "absent_or_blank (Some (JObj kvs)) = False"

fun nonblank_string :: "json option \<Rightarrow> bool" where
  "nonblank_string (Some (JStr s)) = (trim s \<noteq> [])"
| "nonblank_string v = False"

fun truthy_non_string :: "json option \<Rightarrow> bool" where
  "truthy_non_string (Some (JBool b)) = b"
| "truthy_non_string (Some (JNum n)) = (n \<noteq> 0)"
| "truthy_non_string (Some (JArr xs)) = True"
| "truthy_non_string (Some (JObj kvs)) = True"
| "truthy_non_string v = False"

text \<open>
  A query parameter that occurs once in the URL reaches the handler as a string; one
  that is repeated (\<open>?tags=a&tags=b\<close>) reaches it as an array of strings.
\<close>

datatype query_value =
    QStr string
  | QArr "string list"

fun single_valued :: "query_value option \<Rightarrow> bool" where
  \<comment> \<open>the parameter is absent or occurs once\<close>
  "single_valued (Some (QArr qs)) = False"
| "single_valued q = True"

section \<open>The relational store (prisma/migrations/20251125125228\_init/migration.sql)\<close>

record author_row =
  author_id :: string
  author_name :: string

record note_row =
  note_id :: string
  title :: string
  content :: "string option"
  authorId :: string
  createdAt :: nat
  updatedAt :: nat

record tag_row =
  tag_id :: string
  tag_name :: string

record database =
  Author :: "author_row list"
  Note :: "note_row list"
  Tag :: "tag_row list"
  NoteToTag :: "(string \<times> string) list"

definition empty_database :: database where
  "empty_database = \<lparr>Author = [], Note = [], Tag = [], NoteToTag = []\<rparr>"

definition wf_database :: "database \<Rightarrow> bool" where
  \<comment> \<open>The constraints of the migration: the four primary keys, the unique index
      \<open>Tag_name_key\<close>, and the three foreign keys.\<close>
  "wf_database d =
     (distinct (map author_id (Author d)) \<and>
      distinct (map note_id (Note d)) \<and>
      distinct (map tag_id (Tag d)) \<and>
      distinct (NoteToTag d) \<and>
      distinct (map tag_name (Tag d)) \<and>
      list_all (\<lambda>n. authorId n \<in> set (map author_id (Author d))) (Note d) \<and>
      list_all (\<lambda>(a, b). a \<in> set (map note_id (Note d)) \<and> b \<in> set (map tag_id (Tag d)))
        (NoteToTag d))"

definition tag_keys :: "database \<Rightarrow> bool" where
  \<comment> \<open>the primary key and the unique name index of the Tag table\<close>
  "tag_keys d = (distinct (map tag_id (Tag d)) \<and> distinct (map tag_name (Tag d)))"

text \<open>
  What a request does not determine: the clock, and the identifiers generated for new
  rows (\<open>uuid e k\<close> is the identifier offered to the \<open>k\<close>-th row an operation may
  insert).
\<close>

record env =
  clock :: nat
  uuid :: "nat \<Rightarrow> string"

datatype note_joined =
  NoteJoined (joined_note: note_row) (joined_author: "author_row option") (joined_tags: "tag_row list")

record noteUpdateData =
  data_title :: "string option"
  data_content :: "string option option"
  data_tags :: "string list option"


section \<open>Data access layer\<close>

text \<open>
  The handlers reach the store through the Prisma client generated from
  \<open>prisma/schema.prisma\<close>; neither is among the sources. Its operations are modelled
  from section 4.3 of the specification, on the tables of the migration. An operation
  either fails, leaving the database as it was, or returns its result and the new
  database.
\<close>

text \<open>Modelled from the spec: the Tags of a Note, through the join table
  (\<open>include: {tags: true}\<close> of the generated client, which is missing).\<close>

definition tags_of :: "database \<Rightarrow> string \<Rightarrow> tag_row list" where
  "tags_of d nid = filter (\<lambda>t. (nid, tag_id t) \<in> set (NoteToTag d)) (Tag d)"

text \<open>Modelled from the spec: a Note joined with its Author and its Tags
  (\<open>include: {author: true, tags: true}\<close> of the generated client, which is missing).\<close>

definition include_relations :: "database \<Rightarrow> note_row \<Rightarrow> note_joined" where
  "include_relations d n =
     NoteJoined n (find (\<lambda>a. author_id a = authorId n) (Author d)) (tags_of d (note_id n))"

text \<open>Modelled from the spec: connecting a Note to a Tag (\<open>connect\<close> of the
  generated client, which is missing); a pair that is already there stays single.\<close>

definition connect :: "string \<Rightarrow> string \<Rightarrow> database \<Rightarrow> database" where
  "connect nid tid d =
     (if (nid, tid) \<in> set (NoteToTag d) then d
      else d\<lparr>NoteToTag := NoteToTag d @ [(nid, tid)]\<rparr>)"

text \<open>Modelled from the spec: \<open>connectOrCreate\<close> of the generated client, which is
  missing: connect the Note to the existing Tag with that name, or create a new Tag
  with that name; a new row whose identifier is taken violates the primary key.\<close>

definition connectOrCreate :: "string \<Rightarrow> string \<Rightarrow> string \<Rightarrow> database \<Rightarrow> exn + database" where
  "connectOrCreate new_id nid name d =
     (case find (\<lambda>t. tag_name t = name) (Tag d) of
        Some t \<Rightarrow> Inr (connect nid (tag_id t) d)
      | None \<Rightarrow>
          if new_id \<in> set (map tag_id (Tag d)) then Inl (PrismaError ''P2002'')
          else Inr (connect nid new_id
                 (d\<lparr>Tag := Tag d @ [\<lparr>tag_id = new_id, tag_name = name\<rparr>]\<rparr>)))"

text \<open>Modelled from the spec: \<open>connectOrCreate\<close> of the generated client, which is
  missing, for each name of a list in turn.\<close>

fun connectOrCreate_all :: "env \<Rightarrow> nat \<Rightarrow> string \<Rightarrow> string list \<Rightarrow> database \<Rightarrow> exn + database" where
  "connectOrCreate_all e k nid [] d = Inr d"
| "connectOrCreate_all e k nid (name # names) d =
     (case connectOrCreate (uuid e k) nid name d of
        Inl x \<Rightarrow> Inl x
      | Inr d' \<Rightarrow> connectOrCreate_all e (Suc k) nid names d')"

text \<open>Modelled from the spec: \<open>createAuthor(name)\<close>, which is
  \<open>prisma.author.create\<close> of the generated client, which is missing.\<close>

definition createAuthor :: "env \<Rightarrow> database \<Rightarrow> string \<Rightarrow> exn + (author_row \<times> database)" where
  "createAuthor e d name =
     (if uuid e 0 \<in> set (map author_id (Author d)) then Inl (PrismaError ''P2002'')
      else let a = \<lparr>author_id = uuid e 0, author_name = name\<rparr>
           in Inr (a, d\<lparr>Author := Author d @ [a]\<rparr>))"

text \<open>Modelled from the spec: \<open>listAuthors()\<close>, which is
  \<open>prisma.author.findMany\<close> of the generated client, which is missing; names are
  compared code unit by code unit.\<close>

definition listAuthors :: "database \<Rightarrow> author_row list" where
  "listAuthors d = sort_key author_name (Author d)"

text \<open>Modelled from the spec: \<open>getAuthor(id)\<close>, which is
  \<open>prisma.author.findUnique\<close> of the generated client, which is missing.\<close>

definition getAuthor :: "database \<Rightarrow> string \<Rightarrow> author_row option" where
  "getAuthor d i = find (\<lambda>a. author_id a = i) (Author d)"

text \<open>Modelled from the spec: \<open>createNote(title, content, authorId, tagNames)\<close>,
  which is \<open>prisma.note.create\<close> of the generated client, which is missing. The
  foreign key to Author and the primary key of Note can fail it; \<open>createdAt\<close> and
  \<open>updatedAt\<close> are set from the clock.\<close>

definition createNote ::
  "env \<Rightarrow> database \<Rightarrow> string \<Rightarrow> string option \<Rightarrow> string \<Rightarrow> string list \<Rightarrow> exn + (note_joined \<times> database)" where
  "createNote e d t c aid tagNames =
     (if getAuthor d aid = None then Inl (PrismaError ''P2003'')
      else if uuid e 0 \<in> set (map note_id (Note d)) then Inl (PrismaError ''P2002'')
      else
        let n = \<lparr>note_id = uuid e 0, title = t, content = c, authorId = aid,
                 createdAt = clock e, updatedAt = clock e\<rparr>
        in case connectOrCreate_all e 1 (note_id n) tagNames (d\<lparr>Note := Note d @ [n]\<rparr>) of
             Inl x \<Rightarrow> Inl x
           | Inr d' \<Rightarrow> Inr (include_relations d' n, d'))"

text \<open>Modelled from the spec: the order \<open>createdAt\<close> descending
  (\<open>orderBy\<close> of the generated client, which is missing).\<close>

definition orderBy_desc :: "('a \<Rightarrow> nat) \<Rightarrow> 'a list \<Rightarrow> 'a list" where
  "orderBy_desc k xs = rev (sort_key k xs)"

text \<open>Modelled from the spec: a Note having at least one Tag whose name is in the
  filter (\<open>where: {tags: {some: {name: {in: names}}}}\<close> of the generated client,
  which is missing).\<close>

definition has_some_tag :: "database \<Rightarrow> string list \<Rightarrow> note_row \<Rightarrow> bool" where
  "has_some_tag d names n = list_ex (\<lambda>t. tag_name t \<in> set names) (tags_of d (note_id n))"

text \<open>Modelled from the spec: \<open>listNotes(tagNamesFilter?)\<close>, which is
  \<open>prisma.note.findMany\<close> of the generated client, which is missing.\<close>

definition listNotes :: "database \<Rightarrow> string list option \<Rightarrow> note_joined list" where
  "listNotes d tagNamesFilter =
     map (include_relations d)
       (orderBy_desc createdAt
          (case tagNamesFilter of
             None \<Rightarrow> Note d
           | Some names \<Rightarrow> filter (has_some_tag d names) (Note d)))"

text \<open>Modelled from the spec: \<open>getNote(id)\<close>, which is
  \<open>prisma.note.findUnique\<close> of the generated client, which is missing.\<close>

definition getNote :: "database \<Rightarrow> string \<Rightarrow> note_joined option" where
  "getNote d i = map_option (include_relations d) (find (\<lambda>n. note_id n = i) (Note d))"

text \<open>Modelled from the spec: the fields present in an update are applied and
  \<open>updatedAt\<close> is refreshed (\<open>prisma.note.update\<close> of the generated client, which is
  missing).\<close>

definition apply_fields :: "env \<Rightarrow> noteUpdateData \<Rightarrow> note_row \<Rightarrow> note_row" where
  "apply_fields e u n =
     n\<lparr>title := (case data_title u of None \<Rightarrow> title n | Some t \<Rightarrow> t),
       content := (case data_content u of None \<Rightarrow> content n | Some c \<Rightarrow> c),
       updatedAt := clock e\<rparr>"

text \<open>Modelled from the spec: \<open>updateNote(id, {title?, content?, tagNames?})\<close>,
  which is \<open>prisma.note.update\<close> of the generated client, which is missing. With tag
  names present (\<open>set: []\<close> and \<open>connectOrCreate\<close>) the associations of the Note are
  cleared and replaced; no matching Note is the error P2025.\<close>

definition updateNote ::
  "env \<Rightarrow> database \<Rightarrow> string \<Rightarrow> noteUpdateData \<Rightarrow> exn + (note_joined \<times> database)" where
  "updateNote e d i u =
     (case find (\<lambda>n. note_id n = i) (Note d) of
        None \<Rightarrow> Inl (PrismaError ''P2025'')
      | Some n \<Rightarrow>
          let d1 = d\<lparr>Note := map (\<lambda>m. if note_id m = i then apply_fields e u m else m) (Note d)\<rparr>
          in case (case data_tags u of
                     None \<Rightarrow> Inr d1
                   | Some names \<Rightarrow>
                       connectOrCreate_all e 0 i names
                         (d1\<lparr>NoteToTag := filter (\<lambda>(a, b). a \<noteq> i) (NoteToTag d1)\<rparr>)) of
               Inl x \<Rightarrow> Inl x
             | Inr d' \<Rightarrow> Inr (include_relations d' (apply_fields e u n), d'))"

section \<open>Handlers (src/routes/notes.ts, src/routes/authors.ts)\<close>

text \<open>
  The state a handler runs in is the database together with the sequence of calls made
  to the Prisma client so far.
\<close>

datatype call =
    AuthorCreate
  | AuthorFindMany
  | AuthorFindUnique string
  | NoteCreate
  | NoteFindMany
  | NoteFindUnique string
  | NoteUpdate string

record state =
  db :: database
  calls :: "call list"

definition log_call :: "call \<Rightarrow> state \<Rightarrow> state" where
  "log_call c s = s\<lparr>calls := calls s @ [c]\<rparr>"

datatype payload =
    ErrorJson string string
  | AuthorJson author_row
  | AuthorsJson "author_row list"
  | NoteJson note_joined
  | NotesJson "note_joined list"

datatype reply = Reply (status: nat) (sent: payload)

definition bad_request :: "string \<Rightarrow> reply" where
  "bad_request m = Reply 400 (ErrorJson ''Bad Request'' m)"

definition not_found :: "string \<Rightarrow> reply" where
  "not_found m = Reply 404 (ErrorJson ''Not Found'' m)"

definition internal_error :: "string \<Rightarrow> reply" where
  "internal_error m = Reply 500 (ErrorJson ''Internal Server Error'' m)"

fun optional_trim_or_null :: "json option \<Rightarrow> exn + string option" where
  \<comment> \<open>\<open>v?.trim() || null\<close>\<close>
  "optional_trim_or_null None = Inr None"
| "optional_trim_or_null (Some JNull) = Inr None"
| "optional_trim_or_null (Some (JStr c)) = Inr (if trim c = [] then None else Some (trim c))"
| "optional_trim_or_null (Some v) = Inl TypeError"

subsection \<open>POST /notes\<close>

definition destructure_body ::
  "json option \<Rightarrow> exn + (json option \<times> json option \<times> json option \<times> json option)" where
  \<comment> \<open>\<open>const { title, content, authorId, tags = [] } = request.body\<close>\<close>
  "destructure_body body =
     (if nullish body then Inl TypeError
      else
        Inr (get_prop body ''title'', get_prop body ''content'', get_prop body ''authorId'',
             (case get_prop body ''tags'' of None \<Rightarrow> Some (JArr []) | Some v \<Rightarrow> Some v)))"

definition postNote_try :: "env \<Rightarrow> state \<Rightarrow> json option \<Rightarrow> (exn + reply) \<times> state" where
  "postNote_try e s body =
     (case destructure_body body of
        Inl x \<Rightarrow> (Inl x, s)
      | Inr (title_in, content_in, authorId_in, tags_in) \<Rightarrow>
          case blank title_in of
            Inl x \<Rightarrow> (Inl x, s)
          | Inr True \<Rightarrow> (Inr (bad_request ''Note title is required''), s)
          | Inr False \<Rightarrow>
              if tags_in \<noteq> None \<and> \<not> isArray tags_in
              then (Inr (bad_request ''Tags must be an array''), s)
              else
                case blank authorId_in of
                  Inl x \<Rightarrow> (Inl x, s)
                | Inr True \<Rightarrow> (Inr (bad_request ''authorId is required''), s)
                | Inr False \<Rightarrow>
                    if \<not> isValidUUID_value authorId_in
                    then (Inr (bad_request ''The provided authorId is not in valid UUID format''), s)
                    else
                      case authorId_in of
                        Some (JStr aid) \<Rightarrow>
                          let s1 = log_call (AuthorFindUnique aid) s in
                          (case getAuthor (db s1) aid of
                             None \<Rightarrow> (Inr (not_found ''Author not found''), s1)
                           | Some a \<Rightarrow>
                               (case cleanTags_value tags_in of
                                  Inl x \<Rightarrow> (Inl x, s1)
                                | Inr cleanedTags \<Rightarrow>
                                    (case call_trim title_in of
                                       Inl x \<Rightarrow> (Inl x, s1)
                                     | Inr t \<Rightarrow>
                                         (case optional_trim_or_null content_in of
                                            Inl x \<Rightarrow> (Inl x, s1)
                                          | Inr c \<Rightarrow>
                                              let s2 = log_call NoteCreate s1 in
                                              (case createNote e (db s2) t c aid cleanedTags of
                                                 Inl x \<Rightarrow> (Inl x, s2)
                                               | Inr (n, d') \<Rightarrow>
                                                   (Inr (Reply 201 (NoteJson n)), s2\<lparr>db := d'\<rparr>))))))
                      | _ \<Rightarrow> (Inl TypeError, s))"

definition postNote :: "env \<Rightarrow> state \<Rightarrow> json option \<Rightarrow> reply \<times> state" where
  "postNote e s body =
     (case postNote_try e s body of
        (Inl x, s') \<Rightarrow> (internal_error ''Failed to create note'', s')
      | (Inr r, s') \<Rightarrow> (r, s'))"

subsection \<open>GET /notes\<close>

fun tags_filter :: "query_value option \<Rightarrow> exn + string list option" where
  \<comment> \<open>The names of the \<open>where\<close> condition,
      \<open>tags ? tags.split(",").map((tag) => tag.toLowerCase().trim()) : none\<close>. The empty
      string is falsy; an array is truthy and has no \<open>split\<close> method.\<close>
  "tags_filter None = Inr None"
| "tags_filter (Some (QStr q)) =
     Inr (if q = [] then None
          else Some (map (\<lambda>tag. trim (toLowerCase tag)) (split_comma q)))"
| "tags_filter (Some (QArr qs)) = Inl TypeError"

definition listNotes_try :: "state \<Rightarrow> query_value option \<Rightarrow> (exn + reply) \<times> state" where
  "listNotes_try s tags_q =
     (case tags_filter tags_q of
        Inl x \<Rightarrow> (Inl x, s)
      | Inr filter_names \<Rightarrow>
          let s1 = log_call NoteFindMany s
          in (Inr (Reply 200 (NotesJson (listNotes (db s1) filter_names))), s1))"

definition listNotes_handler :: "state \<Rightarrow> query_value option \<Rightarrow> reply \<times> state" where
  "listNotes_handler s tags_q =
     (case listNotes_try s tags_q of
        (Inl x, s') \<Rightarrow> (internal_error ''Failed to fetch notes'', s')
      | (Inr r, s') \<Rightarrow> (r, s'))"

subsection \<open>GET /notes/:id\<close>

definition getNote_handler :: "state \<Rightarrow> string \<Rightarrow> reply \<times> state" where
  "getNote_handler s i =
     (if \<not> isValidUUID i then (bad_request ''Invalid UUID format'', s)
      else
        let s1 = log_call (NoteFindUnique i) s in
        case getNote (db s1) i of
          None \<Rightarrow> (not_found ''Note not found'', s1)
        | Some n \<Rightarrow> (Reply 200 (NoteJson n), s1))"

subsection \<open>PATCH /notes/:id\<close>

definition validateNotePatchRequest :: "json option \<Rightarrow> exn + unit" where
  "validateNotePatchRequest body =
     (case Object_keys_length body of
        Inl x \<Rightarrow> Inl x
      | Inr len \<Rightarrow>
          if len = 0 then Inl (Error ''No fields to update provided'')
          else
            case (if get_prop body ''title'' \<noteq> None then blank (get_prop body ''title'')
                  else Inr False) of
              Inl x \<Rightarrow> Inl x
            | Inr True \<Rightarrow> Inl (Error ''Title cannot be empty'')
            | Inr False \<Rightarrow>
                if get_prop body ''tags'' \<noteq> None \<and> \<not> isArray (get_prop body ''tags'')
                then Inl (Error ''Tags must be an array'')
                else Inr ())"

definition buildNoteUpdateData :: "json option \<Rightarrow> exn + noteUpdateData" where
  "buildNoteUpdateData body =
     (if nullish body then Inl TypeError
      else
        case (if get_prop body ''title'' \<noteq> None
              then map_sum id Some (call_trim (get_prop body ''title''))
              else Inr None) of
          Inl x \<Rightarrow> Inl x
        | Inr t \<Rightarrow>
            (case (if get_prop body ''content'' \<noteq> None
                   then map_sum id
                          (\<lambda>c. Some (if c = [] then None else Some c))
                          (call_trim (get_prop body ''content''))
                   else Inr None) of
               Inl x \<Rightarrow> Inl x
             | Inr c \<Rightarrow>
                 (case (if get_prop body ''tags'' \<noteq> None
                        then map_sum id Some (cleanTags_value (get_prop body ''tags''))
                        else Inr None) of
                    Inl x \<Rightarrow> Inl x
                  | Inr ts \<Rightarrow> Inr \<lparr>data_title = t, data_content = c, data_tags = ts\<rparr>)))"

definition patchNote_try :: "env \<Rightarrow> state \<Rightarrow> string \<Rightarrow> json option \<Rightarrow> (exn + reply) \<times> state" where
  "patchNote_try e s i body =
     (if \<not> isValidUUID i then (Inr (bad_request ''Invalid UUID format''), s)
      else
        case validateNotePatchRequest body of
          Inl x \<Rightarrow> (Inl x, s)
        | Inr u \<Rightarrow>
            (case buildNoteUpdateData body of
               Inl x \<Rightarrow> (Inl x, s)
             | Inr data \<Rightarrow>
                 let s1 = log_call (NoteUpdate i) s in
                 (case updateNote e (db s1) i data of
                    Inl x \<Rightarrow> (Inl x, s1)
                  | Inr (n, d') \<Rightarrow> (Inr (Reply 200 (NoteJson n)), s1\<lparr>db := d'\<rparr>))))"

definition validationErrors :: "string list" where
  "validationErrors =
     [''No fields to update provided'', ''Title cannot be empty'', ''Tags must be an array'']"

fun patchNote_catch :: "exn \<Rightarrow> reply" where
  "patchNote_catch (Error m) =
     (if list_ex (str_includes m) validationErrors then bad_request m
      else internal_error ''Failed to update note'')"
| "patchNote_catch TypeError = internal_error ''Failed to update note''"
| "patchNote_catch (PrismaError c) =
     (if c = ''P2025'' then not_found ''Note not found''
      else internal_error ''Failed to update note'')"

definition patchNote :: "env \<Rightarrow> state \<Rightarrow> string \<Rightarrow> json option \<Rightarrow> reply \<times> state" where
  "patchNote e s i body =
     (case patchNote_try e s i body of
        (Inl x, s') \<Rightarrow> (patchNote_catch x, s')
      | (Inr r, s') \<Rightarrow> (r, s'))"

subsection \<open>POST /authors, GET /authors, GET /authors/:id\<close>

definition postAuthor_try :: "env \<Rightarrow> state \<Rightarrow> json option \<Rightarrow> (exn + reply) \<times> state" where
  "postAuthor_try e s body =
     (if nullish body then (Inl TypeError, s)
      else
        case blank (get_prop body ''name'') of
          Inl x \<Rightarrow> (Inl x, s)
        | Inr True \<Rightarrow> (Inr (bad_request ''Author name is required''), s)
        | Inr False \<Rightarrow>
            (case call_trim (get_prop body ''name'') of
               Inl x \<Rightarrow> (Inl x, s)
             | Inr name \<Rightarrow>
                 let s1 = log_call AuthorCreate s in
                 (case createAuthor e (db s1) name of
                    Inl x \<Rightarrow> (Inl x, s1)
                  | Inr (a, d') \<Rightarrow> (Inr (Reply 201 (AuthorJson a)), s1\<lparr>db := d'\<rparr>))))"

definition postAuthor :: "env \<Rightarrow> state \<Rightarrow> json option \<Rightarrow> reply \<times> state" where
  "postAuthor e s body =
     (case postAuthor_try e s body of
        (Inl x, s') \<Rightarrow> (internal_error ''Failed to create author'', s')
      | (Inr r, s') \<Rightarrow> (r, s'))"

definition listAuthors_handler :: "state \<Rightarrow> reply \<times> state" where
  "listAuthors_handler s =
     (let s1 = log_call AuthorFindMany s
      in (Reply 200 (AuthorsJson (listAuthors (db s1))), s1))"

definition getAuthor_handler :: "state \<Rightarrow> string \<Rightarrow> reply \<times> state" where
  "getAuthor_handler s i =
     (if \<not> isValidUUID i then (bad_request ''Invalid UUID format'', s)
      else
        let s1 = log_call (AuthorFindUnique i) s in
        case getAuthor (db s1) i of
          None \<Rightarrow> (not_found ''Author not found'', s1)
        | Some a \<Rightarrow> (Reply 200 (AuthorJson a), s1))"

subsection \<open>Route composition (src/routes/index.ts)\<close>

datatype request =
    POST_authors "json option"
  | GET_authors
  | GET_author string
  | POST_notes "json option"
  | GET_notes "query_value option"
  | GET_note string
  | PATCH_note string "json option"

fun apiV1Routes :: "env \<Rightarrow> state \<Rightarrow> request \<Rightarrow> reply \<times> state" where
  "apiV1Routes e s (POST_authors body) = postAuthor e s body"
| "apiV1Routes e s GET_authors = listAuthors_handler s"
| "apiV1Routes e s (GET_author i) = getAuthor_handler s i"
| "apiV1Routes e s (POST_notes body) = postNote e s body"
| "apiV1Routes e s (GET_notes q) = listNotes_handler s q"
| "apiV1Routes e s (GET_note i) = getNote_handler s i"
| "apiV1Routes e s (PATCH_note i body) = patchNote e s i body"

definition initial_state :: state where
  "initial_state = \<lparr>db = empty_database, calls = []\<rparr>"

inductive reachable :: "state \<Rightarrow> bool" where
  initial: "reachable initial_state"
| request: "reachable s \<Longrightarrow> apiV1Routes e s r = (rep, s') \<Longrightarrow> reachable s'"

text \<open>
  The changes a request can make to the database: none, or one write of the data
  access layer, where the tag names of a write are always an output of the normalizer.
\<close>

inductive db_step :: "database \<Rightarrow> database \<Rightarrow> bool" where
  unchanged: "db_step d d"
| author_created: "createAuthor e d name = Inr (a, d') \<Longrightarrow> db_step d d'"
| note_created: "createNote e d t c aid (cleanTags ss) = Inr (n, d') \<Longrightarrow> db_step d d'"
| note_updated:
    "updateNote e d i u = Inr (n, d') \<Longrightarrow>
     data_tags u = None \<or> (\<exists>ss. data_tags u = Some (cleanTags ss)) \<Longrightarrow> db_step d d'"

definition normal_form :: "string \<Rightarrow> bool" where
  \<comment> \<open>lowercase, trimmed, non-empty\<close>
  "normal_form name = (name \<noteq> [] \<and> trim name = name \<and> toLowerCase name = name)"


definition tags_normal :: "database \<Rightarrow> bool" where
  "tags_normal d = list_all (\<lambda>t. normal_form (tag_name t)) (Tag d)"

fun call_key :: "call \<Rightarrow> string option" where
  \<comment> \<open>the identifier a lookup is keyed by\<close>
  "call_key (AuthorFindUnique i) = Some i"
| "call_key (NoteFindUnique i) = Some i"
| "call_key (NoteUpdate i) = Some i"
| "call_key c = None"

definition keyed_calls_valid :: "call list \<Rightarrow> bool" where
  \<comment> \<open>every call keyed by an identifier is keyed by a well-formed UUID\<close>
  "keyed_calls_valid cs =
     list_all (\<lambda>c. case call_key c of None \<Rightarrow> True | Some k \<Rightarrow> isValidUUID k) cs"

section \<open>A sample run\<close>

definition example_env :: "nat \<Rightarrow> string list \<Rightarrow> env" where
  "example_env t ids = \<lparr>clock = t, uuid = (\<lambda>k. if k < length ids then ids ! k else [])\<rparr>"

fun run :: "(env \<times> request) list \<Rightarrow> state \<Rightarrow> state" where
  "run [] s = s"
| "run ((e, r) # rs) s = run rs (snd (apiV1Routes e s r))"

definition ada_id :: string where
  "ada_id = ''aaaaaaaa-aaaa-4aaa-8aaa-aaaaaaaaaaaa''"

definition first_id :: string where
  "first_id = ''11111111-1111-4111-8111-111111111111''"

definition second_id :: string where
  "second_id = ''22222222-2222-4222-8222-222222222222''"

definition third_id :: string where
  "third_id = ''33333333-3333-4333-8333-333333333333''"

definition unknown_id :: string where
  "unknown_id = ''99999999-9999-4999-8999-999999999999''"

definition example_requests :: "(env \<times> request) list" where
  "example_requests =
     [(example_env 1 [ada_id],
       POST_authors (Some (JObj [(''name'', JStr ''Ada'')]))),
      (example_env 2 [first_id, ''t1'', ''t2'', ''t3''],
       POST_notes (Some (JObj [(''title'', JStr ''Test Note''),
                               (''content'', JStr ''This is a test note content''),
                               (''authorId'', JStr ada_id),
                               (''tags'', JArr [JStr ''testing'', JStr ''vitest'', JStr ''fastify''])]))),
      (example_env 3 [second_id, ''t4''],
       POST_notes (Some (JObj [(''title'', JStr ''Second''),
                               (''authorId'', JStr ada_id),
                               (''tags'', JArr [JStr ''other''])]))),
      (example_env 4 [third_id, ''t5'', ''t6''],
       POST_notes (Some (JObj [(''title'', JStr ''Third''),
                               (''authorId'', JStr ada_id),
                               (''tags'', JArr [JStr ''Testing '', JStr ''other'']),
                               (''content'', JStr '' '')])))]"

definition example_state :: state where
  "example_state = run example_requests initial_state"


section \<open>Properties of the tag normalizer\<close>

lemma not_isUpper_toLower_char: "\<not> isUpper (toLower_char c)"
  unfolding toLower_char_def isUpper_def Let_def
  by auto

lemma toLowerCase_no_upper: "c \<in> set (toLowerCase s) \<Longrightarrow> \<not> isUpper c"
  by (auto simp: toLowerCase_def not_isUpper_toLower_char)

lemma toLowerCase_fixed: "(\<And>c. c \<in> set s \<Longrightarrow> \<not> isUpper c) \<Longrightarrow> toLowerCase s = s"
  unfolding toLowerCase_def by (induction s) (auto simp: toLower_char_def)

lemma set_trim_subset: "set (trim s) \<subseteq> set s"
  unfolding trim_def by (auto dest!: set_dropWhileD)

lemma trim_hd_last:
  assumes "trim s \<noteq> []"
  shows "\<not> isWhiteSpace (hd (trim s))" and "\<not> isWhiteSpace (last (trim s))"
proof -
  define d where "d = dropWhile isWhiteSpace s"
  define e where "e = dropWhile isWhiteSpace (rev d)"
  have t: "trim s = rev e" by (simp add: trim_def d_def e_def)
  with assms have ne: "e \<noteq> []" by simp
  then have "\<not> isWhiteSpace (hd e)" unfolding e_def by (rule hd_dropWhile)
  then show "\<not> isWhiteSpace (last (trim s))" using ne by (simp add: t last_rev)
  from ne have dne: "d \<noteq> []" unfolding e_def by auto
  then have hd_d: "\<not> isWhiteSpace (hd d)" unfolding d_def by (rule hd_dropWhile)
  have "last e = last (rev d)" using ne unfolding e_def
    by (metis takeWhile_dropWhile_id last_appendR)
  then have "hd (trim s) = hd d" using ne dne by (simp add: t hd_rev last_rev)
  then show "\<not> isWhiteSpace (hd (trim s))" using hd_d by simp
qed

lemma trim_fixed:
  assumes "t \<noteq> []" "\<not> isWhiteSpace (hd t)" "\<not> isWhiteSpace (last t)"
  shows "trim t = t"
proof -
  have 1: "dropWhile isWhiteSpace t = t" using assms by (cases t) auto
  have "rev t \<noteq> []" "\<not> isWhiteSpace (hd (rev t))" using assms by (auto simp: hd_rev)
  then have 2: "dropWhile isWhiteSpace (rev t) = rev t" by (cases "rev t") auto
  show ?thesis by (simp add: trim_def 1 2)
qed

lemma foldl_Set_add:
  "foldl Set_add acc xs = acc @ first_occurrences (filter (\<lambda>y. y \<notin> set acc) xs)"
proof (induction xs arbitrary: acc)
  case Nil
  then show ?case by simp
next
  case (Cons x xs)
  show ?case
  proof (cases "x \<in> set acc")
    case True
    then have "Set_add acc x = acc" by (simp add: Set_add_def)
    with True show ?thesis by (simp add: Cons.IH)
  next
    case False
    then have a: "Set_add acc x = acc @ [x]" by (simp add: Set_add_def)
    have "filter (\<lambda>y. y \<notin> set (acc @ [x])) xs = filter (\<lambda>y. y \<noteq> x) (filter (\<lambda>y. y \<notin> set acc) xs)"
      by (induction xs) auto
    with False show ?thesis by (simp add: a Cons.IH)
  qed
qed

lemma new_Set_first_occurrences: "new_Set xs = first_occurrences xs"
  by (simp add: new_Set_def foldl_Set_add)

lemma set_first_occurrences: "set (first_occurrences xs) = set xs"
  by (induction xs rule: first_occurrences.induct) auto

lemma distinct_first_occurrences: "distinct (first_occurrences xs)"
  by (induction xs rule: first_occurrences.induct) (auto simp: set_first_occurrences)

lemma cleanTags_spec: "cleanTags L = normalize_spec L"
  by (simp add: cleanTags_def normalize_spec_def new_Set_first_occurrences Boolean_str_def [abs_def])

lemma distinct_cleanTags: "distinct (cleanTags L)"
  by (simp add: cleanTags_def new_Set_first_occurrences distinct_first_occurrences)

lemma set_cleanTags: "set (cleanTags L) = (\<lambda>t. trim (toLowerCase t)) ` set L - {[]}"
  by (auto simp: cleanTags_def new_Set_first_occurrences set_first_occurrences Boolean_str_def)

lemma cleanTags_entry:
  assumes "t \<in> set (cleanTags L)"
  shows "t \<noteq> []" "\<not> isWhiteSpace (hd t)" "\<not> isWhiteSpace (last t)" "\<And>c. c \<in> set t \<Longrightarrow> \<not> isUpper c"
proof -
  from assms obtain x where x: "t = trim (toLowerCase x)" and ne: "t \<noteq> []"
    by (auto simp: set_cleanTags)
  show "t \<noteq> []" by fact
  show "\<not> isWhiteSpace (hd t)" "\<not> isWhiteSpace (last t)"
    using trim_hd_last[of "toLowerCase x"] ne x by auto
  show "\<not> isUpper c" if "c \<in> set t" for c
    using that x set_trim_subset[of "toLowerCase x"] toLowerCase_no_upper by blast
qed


text \<open>
  Claim C5. For every list \<open>L\<close> of raw strings, \<open>cleanTags L\<close> is the sequence
  obtained by lowercasing and trimming each element, keeping the first occurrence of
  every value and discarding the entries that are empty after trimming; so it has no
  duplicates, and each of its entries is non-empty, has no leading or trailing
  whitespace, and is lowercase.
\<close>

theorem cleanTags_normal_form:
  "cleanTags L = normalize_spec L \<and> distinct (cleanTags L) \<and>
   (\<forall>t \<in> set (cleanTags L).
      t \<noteq> [] \<and> \<not> isWhiteSpace (hd t) \<and> \<not> isWhiteSpace (last t) \<and> trim t = t \<and>
      (\<forall>c \<in> set t. \<not> isUpper c) \<and> toLowerCase t = t)"
  using cleanTags_spec distinct_cleanTags cleanTags_entry trim_fixed toLowerCase_fixed
  by (metis (no_types, lifting))

theorem cleanTags_normal_form_witness:
  "cleanTags [''Testing'', '' Vitest '', ''testing'', ''  ''] = [''testing'', ''vitest''] \<and>
   normalize_spec [''Testing'', '' Vitest '', ''testing'', ''  ''] = [''testing'', ''vitest''] \<and>
   distinct [''testing'', ''vitest''] \<and>
   trim ''vitest'' = ''vitest'' \<and> toLowerCase ''vitest'' = ''vitest'' \<and>
   \<not> isWhiteSpace (hd ''vitest'') \<and> \<not> isWhiteSpace (last ''vitest'')"
proof -
  have c: "cleanTags [''Testing'', '' Vitest '', ''testing'', ''  ''] = [''testing'', ''vitest'']"
    by code_simp
  have m: "''vitest'' \<in> set [''testing'', ''vitest'']"
    by simp
  from cleanTags_normal_form[of "[''Testing'', '' Vitest '', ''testing'', ''  '']"] m
  show ?thesis unfolding c by metis
qed

section \<open>Calls made by the handlers\<close>

lemma calls_log_call: "calls (log_call c s) = calls s @ [c]" and db_log_call: "db (log_call c s) = db s"
  by (simp_all add: log_call_def)

lemma getNote_handler_calls:
  "getNote_handler s i = (rep, s') \<Longrightarrow> \<exists>new. calls s' = calls s @ new \<and> keyed_calls_valid new"
  by (auto simp: getNote_handler_def Let_def calls_log_call keyed_calls_valid_def split: if_splits option.splits)

lemma getAuthor_handler_calls:
  "getAuthor_handler s i = (rep, s') \<Longrightarrow> \<exists>new. calls s' = calls s @ new \<and> keyed_calls_valid new"
  by (auto simp: getAuthor_handler_def Let_def calls_log_call keyed_calls_valid_def split: if_splits option.splits)

lemma listNotes_handler_calls:
  "listNotes_handler s q = (rep, s') \<Longrightarrow> \<exists>new. calls s' = calls s @ new \<and> keyed_calls_valid new"
  by (cases q rule: tags_filter.cases)
    (auto simp: listNotes_handler_def listNotes_try_def Let_def calls_log_call
      keyed_calls_valid_def)

lemma listAuthors_handler_calls:
  "listAuthors_handler s = (rep, s') \<Longrightarrow> \<exists>new. calls s' = calls s @ new \<and> keyed_calls_valid new"
  by (auto simp: listAuthors_handler_def Let_def calls_log_call keyed_calls_valid_def)

lemma postAuthor_calls:
  "postAuthor e s body = (rep, s') \<Longrightarrow> \<exists>new. calls s' = calls s @ new \<and> keyed_calls_valid new"
  by (auto simp: postAuthor_def postAuthor_try_def Let_def calls_log_call keyed_calls_valid_def
      split: if_splits option.splits json.splits sum.splits bool.splits prod.splits)

lemma patchNote_calls:
  "patchNote e s i body = (rep, s') \<Longrightarrow> \<exists>new. calls s' = calls s @ new \<and> keyed_calls_valid new"
  by (auto simp: patchNote_def patchNote_try_def Let_def calls_log_call keyed_calls_valid_def
      split: if_splits option.splits sum.splits prod.splits)

lemma postNote_try_calls:
  "postNote_try e s body = (r, s') \<Longrightarrow> \<exists>new. calls s' = calls s @ new \<and> keyed_calls_valid new"
  unfolding postNote_try_def destructure_body_def Let_def
  by (auto simp: calls_log_call keyed_calls_valid_def
      split: if_splits option.splits json.splits sum.splits bool.splits prod.splits)

lemma postNote_calls:
  "postNote e s body = (rep, s') \<Longrightarrow> \<exists>new. calls s' = calls s @ new \<and> keyed_calls_valid new"
  by (auto simp: postNote_def split: prod.splits sum.splits dest: postNote_try_calls)

lemma apiV1Routes_calls:
  "apiV1Routes e s r = (rep, s') \<Longrightarrow> \<exists>new. calls s' = calls s @ new \<and> keyed_calls_valid new"
  by (cases r) (auto dest: postNote_calls patchNote_calls postAuthor_calls listAuthors_handler_calls
      listNotes_handler_calls getAuthor_handler_calls getNote_handler_calls)


text \<open>
  Claim C7. A get-by-id request (note or author) whose \<open>id\<close> is not a well-formed
  UUID is answered 400 (so neither 404 nor 500) and returns the state it was given: no
  call to the store is made. Across the whole API, every call that a request adds and
  that is keyed by an identifier is keyed by a well-formed UUID: the check precedes
  the lookup.
\<close>

theorem get_by_id_rejects_invalid_uuid:
  "(\<not> isValidUUID i \<longrightarrow>
      getNote_handler s i = (bad_request ''Invalid UUID format'', s) \<and>
      getAuthor_handler s i = (bad_request ''Invalid UUID format'', s) \<and>
      status (bad_request ''Invalid UUID format'') = 400) \<and>
   (apiV1Routes e s r = (rep, s') \<longrightarrow>
      (\<exists>new. calls s' = calls s @ new \<and> keyed_calls_valid new))"
  using apiV1Routes_calls[of e s r rep s']
  by (simp add: getNote_handler_def getAuthor_handler_def bad_request_def)

theorem get_by_id_rejects_invalid_uuid_witness:
  "\<not> isValidUUID ''42'' \<and>
   getNote_handler example_state ''42'' = (bad_request ''Invalid UUID format'', example_state) \<and>
   getAuthor_handler example_state ''42'' = (bad_request ''Invalid UUID format'', example_state) \<and>
   status (fst (getNote_handler example_state ''42'')) = 400 \<and>
   calls (snd (apiV1Routes (example_env 5 []) example_state (GET_note first_id))) =
     calls example_state @ [NoteFindUnique first_id] \<and>
   keyed_calls_valid [NoteFindUnique first_id]"
proof -
  let ?out = "apiV1Routes (example_env 5 []) example_state (GET_note first_id)"
  have h: "\<not> isValidUUID ''42''"
    by code_simp
  have c: "calls (snd ?out) = calls example_state @ [NoteFindUnique first_id]"
    by code_simp
  have r: "?out = (fst ?out, snd ?out)"
    by simp
  note t = get_by_id_rejects_invalid_uuid[of "''42''" example_state "example_env 5 []"
      "GET_note first_id" "fst ?out" "snd ?out"]
  from t h have a: "getNote_handler example_state ''42'' = (bad_request ''Invalid UUID format'', example_state)"
    and b: "getAuthor_handler example_state ''42'' = (bad_request ''Invalid UUID format'', example_state)"
    by blast+
  from t r obtain new where n: "calls (snd ?out) = calls example_state @ new" "keyed_calls_valid new"
    by blast
  from n(1) c have "new = [NoteFindUnique first_id]"
    by simp
  with n(2) have k: "keyed_calls_valid [NoteFindUnique first_id]"
    by simp
  from h a b c k show ?thesis
    by (simp add: bad_request_def)
qed

section \<open>Validation in the note handlers\<close>

lemma trim_eq_Nil: "trim s = [] \<longleftrightarrow> (\<forall>c \<in> set s. isWhiteSpace c)"
proof
  assume "trim s = []"
  then have all: "\<forall>c \<in> set (dropWhile isWhiteSpace s). isWhiteSpace c"
    by (simp add: trim_def dropWhile_eq_Nil_conv)
  have "dropWhile isWhiteSpace s = []"
  proof (rule ccontr)
    assume ne: "dropWhile isWhiteSpace s \<noteq> []"
    then have "\<not> isWhiteSpace (hd (dropWhile isWhiteSpace s))"
      by (rule hd_dropWhile)
    moreover from ne have "hd (dropWhile isWhiteSpace s) \<in> set (dropWhile isWhiteSpace s)"
      by simp
    ultimately show False
      using all by blast
  qed
  then show "\<forall>c \<in> set s. isWhiteSpace c"
    by (simp add: dropWhile_eq_Nil_conv)
next
  assume "\<forall>c \<in> set s. isWhiteSpace c"
  then show "trim s = []"
    by (auto simp: trim_def dest: set_dropWhileD)
qed

lemma uuid_char_not_space:
  "in_class k c \<Longrightarrow> \<not> isWhiteSpace c"
  by (cases k) (auto simp: isWhiteSpace_def)

lemma isValidUUID_not_blank:
  assumes "isValidUUID a"
  shows "a \<noteq> []" and "trim a \<noteq> []"
proof -
  from assms obtain k ks where "list_all2 in_class (k # ks) a"
    unfolding isValidUUID_def uuid_groups_def by (auto simp: eval_nat_numeral)
  then obtain c cs where a: "a = c # cs" and "in_class k c"
    by (auto simp: list_all2_Cons1)
  then have "\<not> isWhiteSpace c"
    by (simp add: uuid_char_not_space)
  with a show "a \<noteq> []" "trim a \<noteq> []"
    by (auto simp: trim_eq_Nil)
qed

lemma blank_valid_uuid: "isValidUUID a \<Longrightarrow> blank (Some (JStr a)) = Inr False"
  by (simp add: blank_def isValidUUID_not_blank)

lemma destructure_body_tags:
  "destructure_body body = Inr (title_in, content_in, authorId_in, tags_in) \<Longrightarrow> tags_in \<noteq> None"
proof -
  assume "destructure_body body = Inr (title_in, content_in, authorId_in, tags_in)"
  then have "tags_in =
      (case get_prop body ''tags'' of None \<Rightarrow> Some (JArr []) | Some v \<Rightarrow> Some v)"
    by (simp add: destructure_body_def split: if_splits)
  then show ?thesis
    by (simp split: option.splits)
qed

lemma postNote_title_blank:
  assumes "destructure_body body = Inr (title_in, content_in, authorId_in, tags_in)"
    and "blank title_in = Inr True"
  shows "postNote e s body = (bad_request ''Note title is required'', s)"
  using assms by (simp add: postNote_def postNote_try_def)

lemma postNote_tags_not_array:
  assumes "destructure_body body = Inr (title_in, content_in, authorId_in, tags_in)"
    and "blank title_in = Inr False" "tags_in \<noteq> None" "\<not> isArray tags_in"
  shows "postNote e s body = (bad_request ''Tags must be an array'', s)"
  using assms by (simp add: postNote_def postNote_try_def)

lemma postNote_authorId_blank:
  assumes "destructure_body body = Inr (title_in, content_in, authorId_in, tags_in)"
    and "blank title_in = Inr False" "isArray tags_in" "blank authorId_in = Inr True"
  shows "postNote e s body = (bad_request ''authorId is required'', s)"
  using assms by (simp add: postNote_def postNote_try_def)

lemma postNote_authorId_malformed:
  assumes "destructure_body body = Inr (title_in, content_in, authorId_in, tags_in)"
    and "blank title_in = Inr False" "isArray tags_in" "blank authorId_in = Inr False"
    and "\<not> isValidUUID_value authorId_in"
  shows "postNote e s body =
    (bad_request ''The provided authorId is not in valid UUID format'', s)"
  using assms by (simp add: postNote_def postNote_try_def)

lemma postNote_author_missing:
  assumes "destructure_body body = Inr (title_in, content_in, authorId_in, tags_in)"
    and "blank title_in = Inr False" "isArray tags_in"
    and "authorId_in = Some (JStr aid)" "isValidUUID aid" "getAuthor (db s) aid = None"
  shows "postNote e s body = (not_found ''Author not found'', log_call (AuthorFindUnique aid) s)"
  using assms by (simp add: postNote_def postNote_try_def blank_valid_uuid db_log_call)

lemma postNote_try_early:
  assumes "destructure_body body = Inr (title_in, content_in, authorId_in, tags_in)"
    and "\<not> (blank title_in = Inr False \<and> isArray tags_in \<and> blank authorId_in = Inr False \<and>
        isValidUUID_value authorId_in \<and>
        (\<exists>i. authorId_in = Some (JStr i) \<and> getAuthor (db s) i \<noteq> None))"
  shows "snd (postNote_try e s body) = s \<or>
    (\<exists>i. snd (postNote_try e s body) = log_call (AuthorFindUnique i) s)"
proof (cases "blank title_in")
  case (Inl x)
  with assms(1) show ?thesis by (simp add: postNote_try_def)
next
  case t: (Inr bt)
  note g = destructure_body_tags[OF assms(1)]
  show ?thesis
  proof (cases "bt \<or> \<not> isArray tags_in")
    case True
    with assms(1) t g show ?thesis by (cases bt) (auto simp: postNote_try_def)
  next
    case tags: False
    show ?thesis
    proof (cases "blank authorId_in")
      case (Inl x)
      with assms(1) t tags show ?thesis by (simp add: postNote_try_def)
    next
      case a: (Inr ba)
      show ?thesis
      proof (cases "ba \<or> \<not> isValidUUID_value authorId_in")
        case True
        with assms(1) t tags a show ?thesis by (cases ba) (auto simp: postNote_try_def)
      next
        case False
        then obtain i where i: "authorId_in = Some (JStr i)" "isValidUUID i"
          by (cases authorId_in rule: isValidUUID_value.cases) auto
        with assms(2) t tags a False have "getAuthor (db s) i = None"
          by auto
        with assms(1) t tags a False i show ?thesis
          by (auto simp: postNote_try_def db_log_call)
      qed
    qed
  qed
qed

lemma postNote_try_early_calls:
  assumes "destructure_body body = Inr (title_in, content_in, authorId_in, tags_in)"
    and "\<not> (blank title_in = Inr False \<and> isArray tags_in \<and> blank authorId_in = Inr False \<and>
        isValidUUID_value authorId_in \<and>
        (\<exists>i. authorId_in = Some (JStr i) \<and> getAuthor (db s) i \<noteq> None))"
  shows "NoteCreate \<notin> set (drop (length (calls s)) (calls (snd (postNote_try e s body))))"
    and "db (snd (postNote_try e s body)) = db s"
  using postNote_try_early[OF assms, of e]
  by (auto simp: calls_log_call db_log_call)

lemma snd_postNote: "snd (postNote e s body) = snd (postNote_try e s body)"
  by (simp add: postNote_def split: prod.splits sum.splits)

lemma postNote_try_nullish:
  assumes "nullish body"
  shows "postNote_try e s body = (Inl TypeError, s)"
  using assms by (simp add: postNote_try_def destructure_body_def)

lemma destructure_body_cases:
  "nullish body \<or> (\<exists>t c a g. destructure_body body = Inr (t, c, a, g))"
  by (simp add: destructure_body_def)

lemma blank_shapes:
  "blank v = Inr True \<longleftrightarrow> absent_or_blank v"
  "blank v = Inr False \<longleftrightarrow> nonblank_string v"
  "(\<exists>x. blank v = Inl x) \<longleftrightarrow> truthy_non_string v"
proof -
  have e: "trim [] = []"
    by (simp add: trim_def)
  show "blank v = Inr True \<longleftrightarrow> absent_or_blank v"
    by (cases v rule: absent_or_blank.cases; simp add: blank_def e)
  show "blank v = Inr False \<longleftrightarrow> nonblank_string v"
    by (cases v rule: absent_or_blank.cases; simp add: blank_def e)
  show "(\<exists>x. blank v = Inl x) \<longleftrightarrow> truthy_non_string v"
    by (cases v rule: absent_or_blank.cases; simp add: blank_def e)
qed

lemma field_shapes: "absent_or_blank v \<or> nonblank_string v \<or> truthy_non_string v"
  by (cases v rule: absent_or_blank.cases) auto

lemma destructure_body_fields:
  assumes "\<not> nullish body"
  shows "destructure_body body =
    Inr (get_prop body ''title'', get_prop body ''content'', get_prop body ''authorId'',
         (case get_prop body ''tags'' of None \<Rightarrow> Some (JArr []) | Some v \<Rightarrow> Some v))"
  using assms by (simp add: destructure_body_def)

lemma default_tags_shapes:
  "isArray (case g of None \<Rightarrow> Some (JArr []) | Some v \<Rightarrow> Some v) \<longleftrightarrow> g = None \<or> isArray g"
  "(case g of None \<Rightarrow> Some (JArr []) | Some v \<Rightarrow> Some v) \<noteq> None"
  by (cases g; simp)+

lemma postNote_title_throws:
  assumes "destructure_body body = Inr (title_in, content_in, authorId_in, tags_in)"
    and "blank title_in = Inl x"
  shows "postNote e s body = (internal_error ''Failed to create note'', s)"
  using assms by (simp add: postNote_def postNote_try_def)

lemma postNote_authorId_throws:
  assumes "destructure_body body = Inr (title_in, content_in, authorId_in, tags_in)"
    and "blank title_in = Inr False" "isArray tags_in" "blank authorId_in = Inl x"
  shows "postNote e s body = (internal_error ''Failed to create note'', s)"
  using assms by (simp add: postNote_def postNote_try_def)

lemma postNote_throwing_check:
  assumes "\<not> nullish body"
    and "truthy_non_string (get_prop body ''title'') \<or>
      nonblank_string (get_prop body ''title'') \<and>
      (get_prop body ''tags'' = None \<or> isArray (get_prop body ''tags'')) \<and>
      truthy_non_string (get_prop body ''authorId'')"
  shows "postNote e s body = (internal_error ''Failed to create note'', s)"
proof -
  let ?t = "get_prop body ''title''"
  let ?a = "get_prop body ''authorId''"
  let ?g = "case get_prop body ''tags'' of None \<Rightarrow> Some (JArr []) | Some v \<Rightarrow> Some v"
  note d = destructure_body_fields[OF assms(1)]
  from assms(2) show ?thesis
  proof
    assume "truthy_non_string ?t"
    then obtain x where "blank ?t = Inl x"
      using blank_shapes(3)[of ?t] by blast
    from postNote_title_throws[OF d this] show ?thesis .
  next
    assume *: "nonblank_string ?t \<and>
      (get_prop body ''tags'' = None \<or> isArray (get_prop body ''tags'')) \<and> truthy_non_string ?a"
    then have c: "blank ?t = Inr False" "isArray ?g"
      by (simp_all add: blank_shapes default_tags_shapes)
    from * obtain x where "blank ?a = Inl x"
      using blank_shapes(3)[of ?a] by blast
    from postNote_authorId_throws[OF d c this] show ?thesis .
  qed
qed

text \<open>
  Claim C6, as stated, fails on requests outside the declared body type
  (\<open>title: string\<close>, \<open>authorId: string\<close>): a request whose title is the number 5 and
  whose authorId is not a UUID is answered 500, not the 400 of the authorId format
  check, because \<open>title.trim\<close> is not a function; and a request with no body, so with
  no title, is answered 500, not the 400 of the title check.
\<close>

theorem create_note_validation_order_counterexample:
  "truthy (Some (JNum 5)) \<and> \<not> isValidUUID ''not-a-uuid'' \<and>
   postNote (example_env 5 []) example_state
     (Some (JObj [(''title'', JNum 5), (''authorId'', JStr ''not-a-uuid'')])) =
     (Reply 500 (ErrorJson ''Internal Server Error'' ''Failed to create note''), example_state) \<and>
   postNote (example_env 5 []) example_state None =
     (Reply 500 (ErrorJson ''Internal Server Error'' ''Failed to create note''), example_state)"
  by code_simp

text \<open>
  Claim C6, amended. For every create-note request that carries a body (neither absent
  nor \<open>null\<close>) the checks run in the order title presence, tags is-array (if
  provided), authorId presence, authorId UUID format, author existence. A presence
  check fails on a value that is absent, \<open>null\<close>, \<open>false\<close>, zero or a string empty
  after trimming, and passes on a string that is not empty after trimming. The first
  failing check decides the reply (400, or 404 for the missing author) and the note
  insert does not run: the state comes back unchanged, but for the author lookup when
  that is the check that fails. So a request with a blank title and a malformed
  authorId reports the title error. And whatever the request, the insert runs only when
  all five checks have passed.
\<close>

theorem create_note_validation_order:
  "(\<not> nullish body \<longrightarrow>
     (absent_or_blank (get_prop body ''title'') \<longrightarrow>
        postNote e s body = (bad_request ''Note title is required'', s)) \<and>
     (nonblank_string (get_prop body ''title'') \<and>
      get_prop body ''tags'' \<noteq> None \<and> \<not> isArray (get_prop body ''tags'') \<longrightarrow>
        postNote e s body = (bad_request ''Tags must be an array'', s)) \<and>
     (nonblank_string (get_prop body ''title'') \<and>
      (get_prop body ''tags'' = None \<or> isArray (get_prop body ''tags'')) \<and>
      absent_or_blank (get_prop body ''authorId'') \<longrightarrow>
        postNote e s body = (bad_request ''authorId is required'', s)) \<and>
     (nonblank_string (get_prop body ''title'') \<and>
      (get_prop body ''tags'' = None \<or> isArray (get_prop body ''tags'')) \<and>
      nonblank_string (get_prop body ''authorId'') \<and>
      \<not> isValidUUID_value (get_prop body ''authorId'') \<longrightarrow>
        postNote e s body =
          (bad_request ''The provided authorId is not in valid UUID format'', s)) \<and>
     (nonblank_string (get_prop body ''title'') \<and>
      (get_prop body ''tags'' = None \<or> isArray (get_prop body ''tags'')) \<and>
      get_prop body ''authorId'' = Some (JStr aid) \<and> isValidUUID aid \<and>
      getAuthor (db s) aid = None \<longrightarrow>
        postNote e s body =
          (not_found ''Author not found'', log_call (AuthorFindUnique aid) s))) \<and>
   (NoteCreate \<in> set (drop (length (calls s)) (calls (snd (postNote e s body)))) \<longrightarrow>
      \<not> nullish body \<and> nonblank_string (get_prop body ''title'') \<and>
      (get_prop body ''tags'' = None \<or> isArray (get_prop body ''tags'')) \<and>
      (\<exists>i. get_prop body ''authorId'' = Some (JStr i) \<and> isValidUUID i \<and>
           getAuthor (db s) i \<noteq> None))"
proof (intro conjI impI)
  let ?t = "get_prop body ''title''"
  let ?a = "get_prop body ''authorId''"
  let ?g = "case get_prop body ''tags'' of None \<Rightarrow> Some (JArr []) | Some v \<Rightarrow> Some v"
  assume "\<not> nullish body"
  note d = destructure_body_fields[OF this]
  show "postNote e s body = (bad_request ''Note title is required'', s)"
    if "absent_or_blank ?t"
    using postNote_title_blank[OF d] that by (simp add: blank_shapes)
  show "postNote e s body = (bad_request ''Tags must be an array'', s)"
    if "nonblank_string ?t \<and> get_prop body ''tags'' \<noteq> None \<and> \<not> isArray (get_prop body ''tags'')"
  proof -
    from that have "blank ?t = Inr False" "?g \<noteq> None" "\<not> isArray ?g"
      by (simp_all add: blank_shapes default_tags_shapes)
    from postNote_tags_not_array[OF d this] show ?thesis .
  qed
  show "postNote e s body = (bad_request ''authorId is required'', s)"
    if "nonblank_string ?t \<and> (get_prop body ''tags'' = None \<or> isArray (get_prop body ''tags'')) \<and>
      absent_or_blank ?a"
  proof -
    from that have "blank ?t = Inr False" "isArray ?g" "blank ?a = Inr True"
      by (simp_all add: blank_shapes default_tags_shapes)
    from postNote_authorId_blank[OF d this] show ?thesis .
  qed
  show "postNote e s body =
      (bad_request ''The provided authorId is not in valid UUID format'', s)"
    if "nonblank_string ?t \<and> (get_prop body ''tags'' = None \<or> isArray (get_prop body ''tags'')) \<and>
      nonblank_string ?a \<and> \<not> isValidUUID_value ?a"
  proof -
    from that have "blank ?t = Inr False" "isArray ?g" "blank ?a = Inr False"
      "\<not> isValidUUID_value ?a"
      by (simp_all add: blank_shapes default_tags_shapes)
    from postNote_authorId_malformed[OF d this] show ?thesis .
  qed
  show "postNote e s body = (not_found ''Author not found'', log_call (AuthorFindUnique aid) s)"
    if "nonblank_string ?t \<and> (get_prop body ''tags'' = None \<or> isArray (get_prop body ''tags'')) \<and>
      ?a = Some (JStr aid) \<and> isValidUUID aid \<and> getAuthor (db s) aid = None"
  proof -
    from that have "blank ?t = Inr False" "isArray ?g" "?a = Some (JStr aid)" "isValidUUID aid"
      "getAuthor (db s) aid = None"
      by (simp_all add: blank_shapes default_tags_shapes)
    from postNote_author_missing[OF d this] show ?thesis .
  qed
next
  assume ran: "NoteCreate \<in> set (drop (length (calls s)) (calls (snd (postNote e s body))))"
  show n: "\<not> nullish body"
  proof
    assume "nullish body"
    from postNote_try_nullish[OF this, of e s] ran show False
      by (simp add: snd_postNote)
  qed
  note d = destructure_body_fields[OF n]
  from postNote_try_early_calls(1)[OF d, of s e] ran
  have all: "blank (get_prop body ''title'') = Inr False \<and>
      isArray (case get_prop body ''tags'' of None \<Rightarrow> Some (JArr []) | Some v \<Rightarrow> Some v) \<and>
      blank (get_prop body ''authorId'') = Inr False \<and>
      isValidUUID_value (get_prop body ''authorId'') \<and>
      (\<exists>i. get_prop body ''authorId'' = Some (JStr i) \<and> getAuthor (db s) i \<noteq> None)"
    unfolding snd_postNote by blast
  then show "nonblank_string (get_prop body ''title'')"
    and "get_prop body ''tags'' = None \<or> isArray (get_prop body ''tags'')"
    by (simp_all add: blank_shapes default_tags_shapes)
  from all obtain i where i: "get_prop body ''authorId'' = Some (JStr i)"
    "getAuthor (db s) i \<noteq> None"
    by blast
  with all have "isValidUUID i"
    by simp
  with i show "\<exists>i. get_prop body ''authorId'' = Some (JStr i) \<and> isValidUUID i \<and>
           getAuthor (db s) i \<noteq> None"
    by blast
qed

theorem create_note_validation_order_witness:
  "postNote (example_env 5 []) example_state
     (Some (JObj [(''title'', JStr '' ''), (''authorId'', JStr ''not-a-uuid'')])) =
     (bad_request ''Note title is required'', example_state) \<and>
   postNote (example_env 5 []) example_state
     (Some (JObj [(''authorId'', JStr ''not-a-uuid'')])) =
     (bad_request ''Note title is required'', example_state) \<and>
   postNote (example_env 5 []) example_state
     (Some (JObj [(''title'', JNull), (''authorId'', JStr ''not-a-uuid'')])) =
     (bad_request ''Note title is required'', example_state) \<and>
   postNote (example_env 5 []) example_state
     (Some (JObj [(''title'', JStr ''T''), (''tags'', JStr ''a,b''), (''authorId'', JStr ''not-a-uuid'')])) =
     (bad_request ''Tags must be an array'', example_state) \<and>
   postNote (example_env 5 []) example_state
     (Some (JObj [(''title'', JStr ''T''), (''authorId'', JStr '' '')])) =
     (bad_request ''authorId is required'', example_state) \<and>
   postNote (example_env 5 []) example_state
     (Some (JObj [(''title'', JStr ''T'')])) =
     (bad_request ''authorId is required'', example_state) \<and>
   postNote (example_env 5 []) example_state
     (Some (JObj [(''title'', JStr ''T''), (''authorId'', JStr ''not-a-uuid'')])) =
     (bad_request ''The provided authorId is not in valid UUID format'', example_state) \<and>
   postNote (example_env 5 []) example_state
     (Some (JObj [(''title'', JStr ''T''), (''authorId'', JStr unknown_id)])) =
     (not_found ''Author not found'', log_call (AuthorFindUnique unknown_id) example_state) \<and>
   NoteCreate \<in> set (drop (length (calls example_state))
      (calls (snd (postNote (example_env 5 [''44444444-4444-4444-8444-444444444444''])
         example_state (Some (JObj [(''title'', JStr ''T''), (''authorId'', JStr ada_id)])))))) \<and>
   getAuthor (db example_state) ada_id \<noteq> None"
proof -
  let ?e = "example_env 5 []"
  let ?b1 = "Some (JObj [(''title'', JStr '' ''), (''authorId'', JStr ''not-a-uuid'')])"
  let ?b1a = "Some (JObj [(''authorId'', JStr ''not-a-uuid'')])"
  let ?b1b = "Some (JObj [(''title'', JNull), (''authorId'', JStr ''not-a-uuid'')])"
  let ?b2 = "Some (JObj [(''title'', JStr ''T''), (''tags'', JStr ''a,b''), (''authorId'', JStr ''not-a-uuid'')])"
  let ?b3 = "Some (JObj [(''title'', JStr ''T''), (''authorId'', JStr '' '')])"
  let ?b3a = "Some (JObj [(''title'', JStr ''T'')])"
  let ?b4 = "Some (JObj [(''title'', JStr ''T''), (''authorId'', JStr ''not-a-uuid'')])"
  let ?b5 = "Some (JObj [(''title'', JStr ''T''), (''authorId'', JStr unknown_id)])"
  let ?b6 = "Some (JObj [(''title'', JStr ''T''), (''authorId'', JStr ada_id)])"
  let ?e6 = "example_env 5 [''44444444-4444-4444-8444-444444444444'']"
  have body: "\<not> nullish ?b1" "\<not> nullish ?b1a" "\<not> nullish ?b1b" "\<not> nullish ?b2"
    "\<not> nullish ?b3" "\<not> nullish ?b3a" "\<not> nullish ?b5" "\<not> nullish ?b4"
    by code_simp+
  have t1: "absent_or_blank (get_prop ?b1 ''title'')" "absent_or_blank (get_prop ?b1a ''title'')"
    "absent_or_blank (get_prop ?b1b ''title'')"
    by code_simp+
  have t2: "nonblank_string (get_prop ?b2 ''title'')" "get_prop ?b2 ''tags'' \<noteq> None"
    "\<not> isArray (get_prop ?b2 ''tags'')"
    by code_simp+
  have t3: "nonblank_string (get_prop ?b3 ''title'')" "get_prop ?b3 ''tags'' = None"
    "absent_or_blank (get_prop ?b3 ''authorId'')"
    by code_simp+
  have t3a: "nonblank_string (get_prop ?b3a ''title'')" "get_prop ?b3a ''tags'' = None"
    "absent_or_blank (get_prop ?b3a ''authorId'')"
    by code_simp+
  have t4: "nonblank_string (get_prop ?b4 ''title'')" "get_prop ?b4 ''tags'' = None"
    "nonblank_string (get_prop ?b4 ''authorId'')" "\<not> isValidUUID_value (get_prop ?b4 ''authorId'')"
    by code_simp+
  have t5: "nonblank_string (get_prop ?b5 ''title'')" "get_prop ?b5 ''tags'' = None"
    "get_prop ?b5 ''authorId'' = Some (JStr unknown_id)" "isValidUUID unknown_id"
    "getAuthor (db example_state) unknown_id = None"
    by code_simp+
  have ran: "NoteCreate \<in> set (drop (length (calls example_state))
      (calls (snd (postNote ?e6 example_state ?b6))))"
    by code_simp
  have a6: "get_prop ?b6 ''authorId'' = Some (JStr ada_id)"
    by code_simp
  have c1: "postNote ?e example_state ?b1 = (bad_request ''Note title is required'', example_state)"
    using create_note_validation_order[where body = ?b1 and e = ?e and s = example_state]
      body(1) t1(1) by blast
  have c1a: "postNote ?e example_state ?b1a = (bad_request ''Note title is required'', example_state)"
    using create_note_validation_order[where body = ?b1a and e = ?e and s = example_state]
      body(2) t1(2) by blast
  have c1b: "postNote ?e example_state ?b1b = (bad_request ''Note title is required'', example_state)"
    using create_note_validation_order[where body = ?b1b and e = ?e and s = example_state]
      body(3) t1(3) by blast
  have c2: "postNote ?e example_state ?b2 = (bad_request ''Tags must be an array'', example_state)"
    using create_note_validation_order[where body = ?b2 and e = ?e and s = example_state]
      body(4) t2 by blast
  have c3: "postNote ?e example_state ?b3 = (bad_request ''authorId is required'', example_state)"
    using create_note_validation_order[where body = ?b3 and e = ?e and s = example_state]
      body(5) t3 by blast
  have c3a: "postNote ?e example_state ?b3a = (bad_request ''authorId is required'', example_state)"
    using create_note_validation_order[where body = ?b3a and e = ?e and s = example_state]
      body(6) t3a by blast
  have c4: "postNote ?e example_state ?b4 =
      (bad_request ''The provided authorId is not in valid UUID format'', example_state)"
    using create_note_validation_order[where body = ?b4 and e = ?e and s = example_state]
      body(8) t4 by blast
  have c5: "postNote ?e example_state ?b5 =
      (not_found ''Author not found'', log_call (AuthorFindUnique unknown_id) example_state)"
    using create_note_validation_order[where body = ?b5 and e = ?e and s = example_state
        and aid = unknown_id] body(7) t5 by blast
  have "\<exists>i. get_prop ?b6 ''authorId'' = Some (JStr i) \<and> isValidUUID i \<and>
           getAuthor (db example_state) i \<noteq> None"
    using create_note_validation_order[where body = ?b6 and e = ?e6 and s = example_state,
          THEN conjunct2, THEN mp, OF ran] by (elim conjE)
  then obtain i where "get_prop ?b6 ''authorId'' = Some (JStr i)"
    and i: "getAuthor (db example_state) i \<noteq> None"
    by (elim exE conjE)
  with a6 have "i = ada_id"
    by simp
  with i have c6: "getAuthor (db example_state) ada_id \<noteq> None"
    by simp
  from c1 c1a c1b c2 c3 c3a c4 c5 c6 ran show ?thesis
    by blast
qed

text \<open>
  Claim C3, as stated, fails: a request with an empty title whose authorId is a
  well-formed UUID matching no Author is answered 400 by the title check, which comes
  first.
\<close>

theorem create_note_unknown_author_counterexample:
  "isValidUUID unknown_id \<and> getAuthor (db example_state) unknown_id = None \<and>
   destructure_body (Some (JObj [(''title'', JStr []), (''authorId'', JStr unknown_id)])) =
     Inr (Some (JStr []), None, Some (JStr unknown_id), Some (JArr [])) \<and>
   postNote (example_env 5 []) example_state
     (Some (JObj [(''title'', JStr []), (''authorId'', JStr unknown_id)])) =
     (Reply 400 (ErrorJson ''Bad Request'' ''Note title is required''), example_state)"
  by code_simp

text \<open>
  Claim C3, amended. For every create-note request whose authorId is a well-formed
  UUID with no matching Author row, the database is unchanged and the note insert is
  never called; and when the request passes the title and tags checks, the reply is
  404 and the only call made to the store is the author lookup.
\<close>

theorem create_note_unknown_author:
  assumes "destructure_body body = Inr (title_in, content_in, authorId_in, tags_in)"
    and "authorId_in = Some (JStr aid)" "isValidUUID aid" "getAuthor (db s) aid = None"
  shows "db (snd (postNote e s body)) = db s \<and>
     NoteCreate \<notin> set (drop (length (calls s)) (calls (snd (postNote e s body)))) \<and>
     (blank title_in = Inr False \<and> isArray tags_in \<longrightarrow>
        postNote e s body = (not_found ''Author not found'', log_call (AuthorFindUnique aid) s) \<and>
        status (fst (postNote e s body)) = 404)"
proof -
  have "\<not> (blank title_in = Inr False \<and> isArray tags_in \<and> blank authorId_in = Inr False \<and>
        isValidUUID_value authorId_in \<and>
        (\<exists>i. authorId_in = Some (JStr i) \<and> getAuthor (db s) i \<noteq> None))"
    using assms(2,4) by auto
  from postNote_try_early_calls[OF assms(1) this, of e]
  have "db (snd (postNote e s body)) = db s"
    and "NoteCreate \<notin> set (drop (length (calls s)) (calls (snd (postNote e s body))))"
    by (simp_all add: snd_postNote)
  moreover have "postNote e s body = (not_found ''Author not found'', log_call (AuthorFindUnique aid) s)"
    if "blank title_in = Inr False" "isArray tags_in"
    using postNote_author_missing[OF assms(1) that assms(2,3,4)] .
  ultimately show ?thesis
    by (simp add: not_found_def)
qed

theorem create_note_unknown_author_witness:
  "isValidUUID unknown_id \<and> getAuthor (db example_state) unknown_id = None \<and>
   blank (Some (JStr ''T'')) = Inr False \<and> isArray (Some (JArr [JStr ''x''])) \<and>
   postNote (example_env 5 []) example_state
     (Some (JObj [(''title'', JStr ''T''), (''authorId'', JStr unknown_id), (''tags'', JArr [JStr ''x''])])) =
     (not_found ''Author not found'', log_call (AuthorFindUnique unknown_id) example_state) \<and>
   db (log_call (AuthorFindUnique unknown_id) example_state) = db example_state"
proof -
  let ?b = "Some (JObj [(''title'', JStr ''T''), (''authorId'', JStr unknown_id), (''tags'', JArr [JStr ''x''])])"
  have d: "destructure_body ?b =
      Inr (Some (JStr ''T''), None, Some (JStr unknown_id), Some (JArr [JStr ''x'']))"
    by code_simp
  have u: "isValidUUID unknown_id"
    by code_simp
  have g: "getAuthor (db example_state) unknown_id = None"
    by code_simp
  have t: "blank (Some (JStr ''T'')) = Inr False"
    by code_simp
  from create_note_unknown_author[OF d refl u g, of "example_env 5 []"] t u g
  show ?thesis
    by (simp add: db_log_call)
qed


lemma no_fields_is_validation_error:
  "list_ex (str_includes ''No fields to update provided'') validationErrors"
  by code_simp

text \<open>
  Claim C1, as stated, fails: a body whose only field is none of \<open>title\<close>,
  \<open>content\<close>, \<open>tags\<close> passes validation, the update is sent to the store and the
  reply is 200.
\<close>

theorem patch_unknown_field_counterexample:
  "get_prop (Some (JObj [(''pinned'', JBool True)])) ''title'' = None \<and>
   get_prop (Some (JObj [(''pinned'', JBool True)])) ''content'' = None \<and>
   get_prop (Some (JObj [(''pinned'', JBool True)])) ''tags'' = None \<and>
   status (fst (patchNote (example_env 5 []) example_state first_id
     (Some (JObj [(''pinned'', JBool True)])))) = 200 \<and>
   calls (snd (patchNote (example_env 5 []) example_state first_id
     (Some (JObj [(''pinned'', JBool True)])))) = calls example_state @ [NoteUpdate first_id]"
  by code_simp

text \<open>
  Claim C1, amended. Every PATCH request whose body has no fields at all (such as the
  empty object) is answered 400 without any call to the store, and the state, so the
  Note with its fields and tag associations, is left as it was.
\<close>

theorem patch_empty_body_rejected:
  assumes "Object_keys_length body = Inr 0"
  shows "patchNote e s i body =
     (bad_request (if isValidUUID i then ''No fields to update provided''
                   else ''Invalid UUID format''), s) \<and>
     status (fst (patchNote e s i body)) = 400"
  using assms
  by (simp add: patchNote_def patchNote_try_def validateNotePatchRequest_def
      no_fields_is_validation_error bad_request_def)

theorem patch_empty_body_rejected_witness:
  "Object_keys_length (Some (JObj [])) = Inr 0 \<and> isValidUUID first_id \<and>
   patchNote (example_env 5 []) example_state first_id (Some (JObj [])) =
     (bad_request ''No fields to update provided'', example_state) \<and>
   status (fst (patchNote (example_env 5 []) example_state first_id (Some (JObj [])))) = 400"
proof -
  have k: "Object_keys_length (Some (JObj [])) = Inr 0"
    by simp
  have u: "isValidUUID first_id"
    by code_simp
  from patch_empty_body_rejected[OF k, of "example_env 5 []" example_state first_id] k u
  show ?thesis
    by (simp add: bad_request_def)
qed

section \<open>The data access layer keeps the constraints of the schema\<close>

lemma connect_tables [simp]:
  "Author (connect nid tid d) = Author d"
  "Note (connect nid tid d) = Note d"
  "Tag (connect nid tid d) = Tag d"
  "set (NoteToTag (connect nid tid d)) = insert (nid, tid) (set (NoteToTag d))"
  by (auto simp: connect_def)

lemma connect_distinct: "distinct (NoteToTag d) \<Longrightarrow> distinct (NoteToTag (connect nid tid d))"
  by (simp add: connect_def)

lemma connect_others:
  "filter (\<lambda>(a, b). a \<noteq> nid) (NoteToTag (connect nid tid d)) =
   filter (\<lambda>(a, b). a \<noteq> nid) (NoteToTag d)"
  by (simp add: connect_def)

lemma find_tag_name:
  "find (\<lambda>t. tag_name t = name) ts = Some t \<Longrightarrow> t \<in> set ts \<and> tag_name t = name"
  by (auto simp: find_Some_iff)

lemma find_tag_none:
  "find (\<lambda>t. tag_name t = name) ts = None \<Longrightarrow> name \<notin> tag_name ` set ts"
  by (auto simp: find_None_iff)

lemma connectOrCreate_frame:
  assumes "connectOrCreate new_id nid name d = Inr d'"
  shows "Author d' = Author d" and "Note d' = Note d"
    and "\<exists>new. Tag d' = Tag d @ new \<and> tag_name ` set new \<subseteq> {name}"
    and "filter (\<lambda>(a, b). a \<noteq> nid) (NoteToTag d') = filter (\<lambda>(a, b). a \<noteq> nid) (NoteToTag d)"
  using assms
  by (auto simp: connectOrCreate_def connect_others split: option.splits if_splits)

lemma connectOrCreate_all_frame:
  assumes "connectOrCreate_all e k nid names d = Inr d'"
  shows "Author d' = Author d \<and> Note d' = Note d \<and>
    (\<exists>new. Tag d' = Tag d @ new \<and> tag_name ` set new \<subseteq> set names) \<and>
    filter (\<lambda>(a, b). a \<noteq> nid) (NoteToTag d') = filter (\<lambda>(a, b). a \<noteq> nid) (NoteToTag d)"
  using assms
proof (induction names arbitrary: k d)
  case Nil
  then show ?case by simp
next
  case (Cons name names)
  from Cons.prems obtain d1 where 1: "connectOrCreate (uuid e k) nid name d = Inr d1"
    and 2: "connectOrCreate_all e (Suc k) nid names d1 = Inr d'"
    by (auto split: sum.splits)
  from connectOrCreate_frame(3)[OF 1] obtain new1
    where n1: "Tag d1 = Tag d @ new1" "tag_name ` set new1 \<subseteq> {name}"
    by blast
  from Cons.IH[OF 2] obtain new2
    where n2: "Tag d' = Tag d1 @ new2" "tag_name ` set new2 \<subseteq> set names"
    by blast
  from n1 n2 have "Tag d' = Tag d @ (new1 @ new2)"
    and "tag_name ` set (new1 @ new2) \<subseteq> set (name # names)"
    by auto
  then have "\<exists>new. Tag d' = Tag d @ new \<and> tag_name ` set new \<subseteq> set (name # names)"
    by blast
  with connectOrCreate_frame(1,2,4)[OF 1] Cons.IH[OF 2] show ?case
    by simp
qed

lemma tags_of_names_connect:
  assumes "distinct (map tag_id (Tag d))" "t \<in> set (Tag d)"
  shows "tag_name ` set (tags_of (connect nid (tag_id t) d) nid) =
    insert (tag_name t) (tag_name ` set (tags_of d nid))"
proof -
  have "u = t" if "u \<in> set (Tag d)" "tag_id u = tag_id t" for u
    using assms that by (meson distinct_map inj_onD)
  with assms(2) show ?thesis
    by (auto simp: tags_of_def)
qed

lemma connectOrCreate_linked:
  assumes "tag_keys d" "connectOrCreate new_id nid name d = Inr d'"
  shows "tag_keys d'"
    and "tag_name ` set (tags_of d' nid) = insert name (tag_name ` set (tags_of d nid))"
proof -
  show "tag_keys d'"
    using assms
    by (auto simp: connectOrCreate_def tag_keys_def split: option.splits if_splits
        dest: find_tag_none)
  show "tag_name ` set (tags_of d' nid) = insert name (tag_name ` set (tags_of d nid))"
  proof (cases "find (\<lambda>t. tag_name t = name) (Tag d)")
    case (Some t)
    with assms(2) have d': "d' = connect nid (tag_id t) d"
      by (simp add: connectOrCreate_def)
    from Some have "t \<in> set (Tag d)" "tag_name t = name"
      by (auto dest: find_tag_name)
    with assms(1) show ?thesis
      unfolding d' tag_keys_def using tags_of_names_connect[of d t nid] by simp
  next
    case None
    with assms(2) have fresh: "new_id \<notin> tag_id ` set (Tag d)"
      and d': "d' = connect nid new_id (d\<lparr>Tag := Tag d @ [\<lparr>tag_id = new_id, tag_name = name\<rparr>]\<rparr>)"
      by (auto simp: connectOrCreate_def split: if_splits)
    from fresh show ?thesis
      unfolding d' by (auto simp: tags_of_def)
  qed
qed

lemma connectOrCreate_all_linked:
  assumes "tag_keys d" "connectOrCreate_all e k nid names d = Inr d'"
  shows "tag_keys d' \<and>
    tag_name ` set (tags_of d' nid) = set names \<union> tag_name ` set (tags_of d nid)"
  using assms
proof (induction names arbitrary: k d)
  case Nil
  then show ?case by simp
next
  case (Cons name names)
  from Cons.prems obtain d1 where 1: "connectOrCreate (uuid e k) nid name d = Inr d1"
    and 2: "connectOrCreate_all e (Suc k) nid names d1 = Inr d'"
    by (auto split: sum.splits)
  from connectOrCreate_linked[OF Cons.prems(1) 1] Cons.IH[OF _ 2] show ?case
    by auto
qed


lemma wf_database_tag_keys: "wf_database d \<Longrightarrow> tag_keys d"
  by (simp add: wf_database_def tag_keys_def)

lemma connectOrCreate_wf:
  assumes "wf_database d" "nid \<in> set (map note_id (Note d))"
    and "connectOrCreate new_id nid name d = Inr d'"
  shows "wf_database d'"
proof (cases "find (\<lambda>t. tag_name t = name) (Tag d)")
  case (Some t)
  with assms(3) have d': "d' = connect nid (tag_id t) d"
    by (simp add: connectOrCreate_def)
  from Some have "t \<in> set (Tag d)"
    by (auto dest: find_tag_name)
  with assms(1,2) show ?thesis
    unfolding d' wf_database_def by (auto simp: list_all_iff connect_distinct)
next
  case None
  with assms(3) have fresh: "new_id \<notin> tag_id ` set (Tag d)"
    and d': "d' = connect nid new_id (d\<lparr>Tag := Tag d @ [\<lparr>tag_id = new_id, tag_name = name\<rparr>]\<rparr>)"
    by (auto simp: connectOrCreate_def split: if_splits)
  from None have "name \<notin> tag_name ` set (Tag d)"
    by (rule find_tag_none)
  with assms(1,2) fresh show ?thesis
    unfolding d' wf_database_def by (auto simp: list_all_iff connect_distinct)
qed

lemma connectOrCreate_all_wf:
  assumes "wf_database d" "nid \<in> set (map note_id (Note d))"
    and "connectOrCreate_all e k nid names d = Inr d'"
  shows "wf_database d'"
  using assms
proof (induction names arbitrary: k d)
  case Nil
  then show ?case by simp
next
  case (Cons name names)
  from Cons.prems(3) obtain d1 where 1: "connectOrCreate (uuid e k) nid name d = Inr d1"
    and 2: "connectOrCreate_all e (Suc k) nid names d1 = Inr d'"
    by (auto split: sum.splits)
  from connectOrCreate_wf[OF Cons.prems(1,2) 1] connectOrCreate_frame(2)[OF 1] Cons.prems(2)
  show ?case
    by (intro Cons.IH[OF _ _ 2]) simp_all
qed

lemma createAuthor_wf:
  assumes "wf_database d" "createAuthor e d name = Inr (a, d')"
  shows "wf_database d'" and "Tag d' = Tag d" and "Note d' = Note d"
    and "NoteToTag d' = NoteToTag d"
  using assms
  by (auto simp: createAuthor_def wf_database_def Let_def list_all_iff split: if_splits)

lemma getAuthor_Some: "getAuthor d i = Some a \<Longrightarrow> a \<in> set (Author d) \<and> author_id a = i"
  by (auto simp: getAuthor_def find_Some_iff)

lemma createNote_result:
  assumes "createNote e d t c aid names = Inr (n, d')"
  shows "\<exists>m d0. m = \<lparr>note_id = uuid e 0, title = t, content = c, authorId = aid,
                       createdAt = clock e, updatedAt = clock e\<rparr> \<and>
           d0 = d\<lparr>Note := Note d @ [m]\<rparr> \<and>
           getAuthor d aid \<noteq> None \<and> uuid e 0 \<notin> set (map note_id (Note d)) \<and>
           connectOrCreate_all e 1 (uuid e 0) names d0 = Inr d' \<and>
           n = include_relations d' m"
  using assms
  by (auto simp: createNote_def Let_def split: if_splits sum.splits)

lemma createNote_wf:
  assumes "wf_database d" "createNote e d t c aid names = Inr (n, d')"
  shows "wf_database d'"
proof -
  from createNote_result[OF assms(2)] obtain m d0 where
    m: "m = \<lparr>note_id = uuid e 0, title = t, content = c, authorId = aid,
             createdAt = clock e, updatedAt = clock e\<rparr>"
    and d0: "d0 = d\<lparr>Note := Note d @ [m]\<rparr>"
    and a: "getAuthor d aid \<noteq> None" and fresh: "uuid e 0 \<notin> set (map note_id (Note d))"
    and all: "connectOrCreate_all e 1 (uuid e 0) names d0 = Inr d'"
    by blast
  from a obtain au where "au \<in> set (Author d)" "author_id au = aid"
    by (auto dest: getAuthor_Some)
  with assms(1) fresh have "wf_database d0"
    unfolding d0 m wf_database_def by (auto simp: list_all_iff)
  moreover have "uuid e 0 \<in> set (map note_id (Note d0))"
    unfolding d0 m by simp
  ultimately show ?thesis
    using all by (rule connectOrCreate_all_wf)
qed

lemma createNote_frame:
  assumes "createNote e d t c aid names = Inr (n, d')"
  shows "Author d' = Author d"
    and "\<exists>m. Note d' = Note d @ [m]"
    and "\<exists>new. Tag d' = Tag d @ new \<and> tag_name ` set new \<subseteq> set names"
proof -
  from createNote_result[OF assms] obtain m d0 where
    d0: "d0 = d\<lparr>Note := Note d @ [m]\<rparr>"
    and all: "connectOrCreate_all e 1 (uuid e 0) names d0 = Inr d'"
    by blast
  from connectOrCreate_all_frame[OF all]
  show "Author d' = Author d" "\<exists>m. Note d' = Note d @ [m]"
    "\<exists>new. Tag d' = Tag d @ new \<and> tag_name ` set new \<subseteq> set names"
    unfolding d0 by auto
qed

lemma updateNote_result:
  assumes "updateNote e d i u = Inr (n, d')"
  shows "\<exists>m d1. find (\<lambda>n. note_id n = i) (Note d) = Some m \<and>
      d1 = d\<lparr>Note := map (\<lambda>m. if note_id m = i then apply_fields e u m else m) (Note d)\<rparr> \<and>
      (case data_tags u of
         None \<Rightarrow> d' = d1
       | Some names \<Rightarrow>
           connectOrCreate_all e 0 i names
             (d1\<lparr>NoteToTag := filter (\<lambda>(a, b). a \<noteq> i) (NoteToTag d1)\<rparr>) = Inr d') \<and>
      n = include_relations d' (apply_fields e u m)"
  using assms
  by (auto simp: updateNote_def Let_def split: option.splits sum.splits)

lemma apply_fields_keeps [simp]:
  "note_id (apply_fields e u m) = note_id m"
  "authorId (apply_fields e u m) = authorId m"
  "createdAt (apply_fields e u m) = createdAt m"
  by (simp_all add: apply_fields_def)

lemma apply_fields_absent:
  "data_title u = None \<Longrightarrow> title (apply_fields e u m) = title m"
  "data_content u = None \<Longrightarrow> content (apply_fields e u m) = content m"
  by (simp_all add: apply_fields_def)

lemma map_apply_fields:
  "map note_id (map (\<lambda>m. if note_id m = i then apply_fields e u m else m) ns) = map note_id ns"
  "map authorId (map (\<lambda>m. if note_id m = i then apply_fields e u m else m) ns) = map authorId ns"
  "map createdAt (map (\<lambda>m. if note_id m = i then apply_fields e u m else m) ns) = map createdAt ns"
  by (induction ns) auto

lemma map_apply_fields_absent:
  "data_title u = None \<Longrightarrow>
     map title (map (\<lambda>m. if note_id m = i then apply_fields e u m else m) ns) = map title ns"
  "data_content u = None \<Longrightarrow>
     map content (map (\<lambda>m. if note_id m = i then apply_fields e u m else m) ns) = map content ns"
  by (induction ns) (auto simp: apply_fields_def)

lemma updateNote_frame:
  assumes "updateNote e d i u = Inr (n, d')"
  shows "Author d' = Author d"
    and "map note_id (Note d') = map note_id (Note d)"
    and "map authorId (Note d') = map authorId (Note d)"
    and "map createdAt (Note d') = map createdAt (Note d)"
    and "data_title u = None \<Longrightarrow> map title (Note d') = map title (Note d)"
    and "data_content u = None \<Longrightarrow> map content (Note d') = map content (Note d)"
    and "data_tags u = None \<Longrightarrow> NoteToTag d' = NoteToTag d \<and> Tag d' = Tag d"
    and "\<exists>new. Tag d' = Tag d @ new \<and> (\<forall>names. data_tags u = Some names \<longrightarrow> tag_name ` set new \<subseteq> set names)"
    and "filter (\<lambda>(a, b). a \<noteq> i) (NoteToTag d') = filter (\<lambda>(a, b). a \<noteq> i) (NoteToTag d)"
proof -
  from updateNote_result[OF assms] obtain m d1 where
    d1: "d1 = d\<lparr>Note := map (\<lambda>m. if note_id m = i then apply_fields e u m else m) (Note d)\<rparr>"
    and t: "case data_tags u of
         None \<Rightarrow> d' = d1
       | Some names \<Rightarrow>
           connectOrCreate_all e 0 i names
             (d1\<lparr>NoteToTag := filter (\<lambda>(a, b). a \<noteq> i) (NoteToTag d1)\<rparr>) = Inr d'"
    by blast
  have *: "Author d' = Author d \<and> Note d' = Note d1 \<and>
    (\<exists>new. Tag d' = Tag d @ new \<and> (\<forall>names. data_tags u = Some names \<longrightarrow> tag_name ` set new \<subseteq> set names)) \<and>
    filter (\<lambda>(a, b). a \<noteq> i) (NoteToTag d') = filter (\<lambda>(a, b). a \<noteq> i) (NoteToTag d) \<and>
    (data_tags u = None \<longrightarrow> NoteToTag d' = NoteToTag d \<and> Tag d' = Tag d)"
  proof (cases "data_tags u")
    case None
    with t show ?thesis by (simp add: d1)
  next
    case (Some names)
    with t have "connectOrCreate_all e 0 i names
             (d1\<lparr>NoteToTag := filter (\<lambda>(a, b). a \<noteq> i) (NoteToTag d1)\<rparr>) = Inr d'"
      by simp
    from connectOrCreate_all_frame[OF this] Some show ?thesis
      by (simp add: d1)
  qed
  then show "Author d' = Author d"
    and "\<exists>new. Tag d' = Tag d @ new \<and> (\<forall>names. data_tags u = Some names \<longrightarrow> tag_name ` set new \<subseteq> set names)"
    and "filter (\<lambda>(a, b). a \<noteq> i) (NoteToTag d') = filter (\<lambda>(a, b). a \<noteq> i) (NoteToTag d)"
    and "data_tags u = None \<Longrightarrow> NoteToTag d' = NoteToTag d \<and> Tag d' = Tag d"
    by blast+
  have "Note d1 = map (\<lambda>m. if note_id m = i then apply_fields e u m else m) (Note d)"
    by (simp add: d1)
  with * have n: "Note d' = map (\<lambda>m. if note_id m = i then apply_fields e u m else m) (Note d)"
    by simp
  show "map note_id (Note d') = map note_id (Note d)"
    and "map authorId (Note d') = map authorId (Note d)"
    and "map createdAt (Note d') = map createdAt (Note d)"
    unfolding n by (rule map_apply_fields)+
  show "data_title u = None \<Longrightarrow> map title (Note d') = map title (Note d)"
    and "data_content u = None \<Longrightarrow> map content (Note d') = map content (Note d)"
    unfolding n by (rule map_apply_fields_absent; assumption)+
qed

lemma find_note_id: "find (\<lambda>n. note_id n = i) ns = Some m \<Longrightarrow> i \<in> set (map note_id ns)"
  by (auto simp: find_Some_iff)

lemma updateNote_wf:
  assumes "wf_database d" "updateNote e d i u = Inr (n, d')"
  shows "wf_database d'"
proof -
  from updateNote_result[OF assms(2)] obtain m d1 where
    f: "find (\<lambda>n. note_id n = i) (Note d) = Some m"
    and d1: "d1 = d\<lparr>Note := map (\<lambda>m. if note_id m = i then apply_fields e u m else m) (Note d)\<rparr>"
    and t: "case data_tags u of
         None \<Rightarrow> d' = d1
       | Some names \<Rightarrow>
           connectOrCreate_all e 0 i names
             (d1\<lparr>NoteToTag := filter (\<lambda>(a, b). a \<noteq> i) (NoteToTag d1)\<rparr>) = Inr d'"
    by blast
  have n1: "Note d1 = map (\<lambda>m. if note_id m = i then apply_fields e u m else m) (Note d)"
    by (simp add: d1)
  have ids: "map note_id (Note d1) = map note_id (Note d)"
    unfolding n1 by (rule map_apply_fields)
  have fk: "list_all (\<lambda>n. authorId n \<in> set (map author_id (Author d1))) (Note d1)"
    using assms(1) unfolding wf_database_def n1 by (auto simp: list_all_iff d1)
  have rest: "Author d1 = Author d" "Tag d1 = Tag d" "NoteToTag d1 = NoteToTag d"
    by (simp_all add: d1)
  have wf1: "wf_database d1"
    using assms(1) fk unfolding wf_database_def ids rest
    by simp
  show ?thesis
  proof (cases "data_tags u")
    case None
    with t wf1 show ?thesis by simp
  next
    case (Some names)
    let ?d2 = "d1\<lparr>NoteToTag := filter (\<lambda>(a, b). a \<noteq> i) (NoteToTag d1)\<rparr>"
    from Some t have c: "connectOrCreate_all e 0 i names ?d2 = Inr d'"
      by simp
    from wf1 have "wf_database ?d2"
      unfolding wf_database_def by (auto simp: list_all_iff)
    moreover from f ids have "i \<in> set (map note_id (Note ?d2))"
      by (auto dest: find_note_id)
    ultimately show ?thesis
      using c by (rule connectOrCreate_all_wf)
  qed
qed

lemma updateNote_tags:
  assumes "wf_database d" "updateNote e d i u = Inr (n, d')" "data_tags u = Some names"
  shows "tag_name ` set (tags_of d' i) = set names" and "joined_tags n = tags_of d' i"
proof -
  from updateNote_result[OF assms(2)] assms(3) obtain m d1 where
    f: "find (\<lambda>n. note_id n = i) (Note d) = Some m"
    and d1: "d1 = d\<lparr>Note := map (\<lambda>m. if note_id m = i then apply_fields e u m else m) (Note d)\<rparr>"
    and c: "connectOrCreate_all e 0 i names
             (d1\<lparr>NoteToTag := filter (\<lambda>(a, b). a \<noteq> i) (NoteToTag d1)\<rparr>) = Inr d'"
    and n: "n = include_relations d' (apply_fields e u m)"
    by auto
  let ?d2 = "d1\<lparr>NoteToTag := filter (\<lambda>(a, b). a \<noteq> i) (NoteToTag d1)\<rparr>"
  from assms(1) have "tag_keys ?d2"
    by (simp add: wf_database_def tag_keys_def d1)
  from connectOrCreate_all_linked[OF this c]
  have "tag_name ` set (tags_of d' i) = set names \<union> tag_name ` set (tags_of ?d2 i)"
    by simp
  moreover have "tags_of ?d2 i = []"
    by (auto simp: tags_of_def filter_empty_conv)
  ultimately show "tag_name ` set (tags_of d' i) = set names"
    by simp
  from f have "note_id m = i"
    by (auto simp: find_Some_iff)
  then show "joined_tags n = tags_of d' i"
    unfolding n by (simp add: include_relations_def apply_fields_def)
qed

section \<open>What a request does to the database\<close>

lemma status_patchNote_catch: "status (patchNote_catch x) \<noteq> 200"
  by (cases x) (simp_all add: bad_request_def not_found_def internal_error_def)

lemma cleanTags_value_Inr:
  "cleanTags_value v = Inr names \<Longrightarrow> \<exists>xs ss. v = Some (JArr xs) \<and> strings_of xs = Some ss \<and> names = cleanTags ss"
  by (auto simp: cleanTags_value_def split: option.splits json.splits)

lemma map_sum_Inr: "map_sum id f x = Inr y \<longleftrightarrow> (\<exists>z. x = Inr z \<and> y = f z)"
  by (cases x) auto

lemma buildNoteUpdateData_fields:
  assumes "buildNoteUpdateData body = Inr u"
  shows "(get_prop body ''title'' = None \<longrightarrow> data_title u = None) \<and>
    (get_prop body ''content'' = None \<longrightarrow> data_content u = None) \<and>
    (get_prop body ''tags'' = None \<longrightarrow> data_tags u = None) \<and>
    (get_prop body ''tags'' \<noteq> None \<longrightarrow>
       (\<exists>xs ss. get_prop body ''tags'' = Some (JArr xs) \<and> strings_of xs = Some ss \<and>
          data_tags u = Some (cleanTags ss)))"
proof -
  define t where "t = (if get_prop body ''title'' \<noteq> None
            then map_sum id Some (call_trim (get_prop body ''title'')) else Inr None)"
  define c where "c = (if get_prop body ''content'' \<noteq> None
            then map_sum id (\<lambda>c. Some (if c = [] then None else Some c))
                   (call_trim (get_prop body ''content''))
            else Inr None)"
  define g where "g = (if get_prop body ''tags'' \<noteq> None
            then map_sum id Some (cleanTags_value (get_prop body ''tags'')) else Inr None)"
  from assms have "\<not> nullish body"
    by (auto simp: buildNoteUpdateData_def)
  then have "buildNoteUpdateData body =
      (case t of Inl x \<Rightarrow> Inl x
       | Inr t' \<Rightarrow> (case c of Inl x \<Rightarrow> Inl x
          | Inr c' \<Rightarrow> (case g of Inl x \<Rightarrow> Inl x
             | Inr ts \<Rightarrow> Inr \<lparr>data_title = t', data_content = c', data_tags = ts\<rparr>)))"
    unfolding buildNoteUpdateData_def t_def c_def g_def by simp
  with assms obtain t' c' ts where tct: "t = Inr t'" "c = Inr c'" "g = Inr ts"
    and u: "u = \<lparr>data_title = t', data_content = c', data_tags = ts\<rparr>"
    by (auto split: sum.splits)
  from tct(1) have 1: "get_prop body ''title'' = None \<longrightarrow> t' = None"
    by (auto simp: t_def)
  from tct(2) have 2: "get_prop body ''content'' = None \<longrightarrow> c' = None"
    by (auto simp: c_def)
  from tct(3) have 3: "get_prop body ''tags'' = None \<longrightarrow> ts = None"
    by (auto simp: g_def)
  have 4: "\<exists>xs ss. get_prop body ''tags'' = Some (JArr xs) \<and> strings_of xs = Some ss \<and>
          ts = Some (cleanTags ss)" if "get_prop body ''tags'' \<noteq> None"
  proof -
    from that tct(3) obtain names where n: "cleanTags_value (get_prop body ''tags'') = Inr names"
      and "ts = Some names"
      by (auto simp: g_def map_sum_Inr)
    with cleanTags_value_Inr[OF n] show ?thesis
      by auto
  qed
  from 1 2 3 4 show ?thesis
    unfolding u by simp
qed

lemma patchNote_try_Inr:
  assumes "patchNote_try e s i body = (Inr r, s')"
  shows "(r = bad_request ''Invalid UUID format'' \<and> s' = s) \<or>
    (\<exists>u n. isValidUUID i \<and> validateNotePatchRequest body = Inr () \<and>
       buildNoteUpdateData body = Inr u \<and> updateNote e (db s) i u = Inr (n, db s') \<and>
       r = Reply 200 (NoteJson n) \<and> calls s' = calls s @ [NoteUpdate i])"
  using assms
  by (auto simp: patchNote_try_def Let_def db_log_call calls_log_call
      split: if_splits sum.splits prod.splits)

lemma patchNote_try_Inl:
  assumes "patchNote_try e s i body = (Inl x, s')"
  shows "db s' = db s"
  using assms
  by (auto simp: patchNote_try_def Let_def db_log_call
      split: if_splits sum.splits prod.splits)

lemma patchNote_200:
  assumes "patchNote e s i body = (rep, s')" "status rep = 200"
  shows "\<exists>u n. isValidUUID i \<and> validateNotePatchRequest body = Inr () \<and>
       buildNoteUpdateData body = Inr u \<and> updateNote e (db s) i u = Inr (n, db s') \<and>
       rep = Reply 200 (NoteJson n) \<and> calls s' = calls s @ [NoteUpdate i]"
proof (cases "patchNote_try e s i body")
  case (Pair o1 s1)
  show ?thesis
  proof (cases o1)
    case (Inl x)
    with Pair assms show ?thesis
      using status_patchNote_catch[of x] by (auto simp: patchNote_def)
  next
    case (Inr r)
    with Pair assms have "rep = r" "s' = s1"
      by (simp_all add: patchNote_def)
    with patchNote_try_Inr[of e s i body r s1] Pair Inr assms(2) show ?thesis
      by (auto simp: bad_request_def)
  qed
qed

lemma patchNote_db_step:
  assumes "patchNote e s i body = (rep, s')"
  shows "db_step (db s) (db s')"
proof (cases "patchNote_try e s i body")
  case (Pair o1 s1)
  show ?thesis
  proof (cases o1)
    case (Inl x)
    with Pair assms have "s' = s1"
      by (simp add: patchNote_def)
    with patchNote_try_Inl[of e s i body x s1] Pair Inl show ?thesis
      by (simp add: db_step.unchanged)
  next
    case (Inr r)
    with Pair assms have s1: "s' = s1"
      by (simp add: patchNote_def)
    from patchNote_try_Inr[of e s i body r s1] Pair Inr
    consider "s1 = s"
      | u n where "buildNoteUpdateData body = Inr u" "updateNote e (db s) i u = Inr (n, db s1)"
      by auto
    then show ?thesis
    proof cases
      case 1
      with s1 show ?thesis by (simp add: db_step.unchanged)
    next
      case 2
      from buildNoteUpdateData_fields[OF 2(1)]
      have "data_tags u = None \<or> (\<exists>ss. data_tags u = Some (cleanTags ss))"
        by (cases "data_tags u") auto
      with 2(2) show ?thesis
        unfolding s1 by (rule db_step.note_updated)
    qed
  qed
qed

lemma postAuthor_db_step:
  assumes "postAuthor e s body = (rep, s')"
  shows "db_step (db s) (db s')"
  using assms
  by (auto simp: postAuthor_def postAuthor_try_def Let_def db_log_call
      split: if_splits sum.splits bool.splits prod.splits
      intro: db_step.intros)

lemma postNote_try_db_step:
  assumes "postNote_try e s body = (r, s')"
  shows "db_step (db s) (db s')"
proof (cases "destructure_body body")
  case (Inl x)
  with assms show ?thesis
    by (simp add: postNote_try_def db_step.unchanged)
next
  case (Inr f)
  obtain title_in content_in authorId_in tags_in
    where f: "f = (title_in, content_in, authorId_in, tags_in)"
    by (cases f) auto
  note d = Inr[unfolded f]
  show ?thesis
  proof (cases "blank title_in = Inr False \<and> isArray tags_in \<and> blank authorId_in = Inr False \<and>
        isValidUUID_value authorId_in \<and>
        (\<exists>i. authorId_in = Some (JStr i) \<and> getAuthor (db s) i \<noteq> None)")
    case False
    from postNote_try_early_calls(2)[OF d False, of e] assms show ?thesis
      by (simp add: db_step.unchanged)
  next
    case True
    then obtain i a where i: "authorId_in = Some (JStr i)" "getAuthor (db s) i = Some a"
      by auto
    with True have v: "isValidUUID i"
      by simp
    show ?thesis
    proof (cases "cleanTags_value tags_in")
      case (Inl x)
      with assms d True i v show ?thesis
        by (auto simp: postNote_try_def db_log_call db_step.unchanged)
    next
      case ct: (Inr names)
      from cleanTags_value_Inr[OF ct] obtain ss where ss: "names = cleanTags ss"
        by blast
      show ?thesis
      proof (cases "call_trim title_in")
        case (Inl x)
        with assms d True i v ct show ?thesis
          by (auto simp: postNote_try_def db_log_call db_step.unchanged)
      next
        case tt: (Inr t)
        show ?thesis
        proof (cases "optional_trim_or_null content_in")
          case (Inl x)
          with assms d True i v ct tt show ?thesis
            by (auto simp: postNote_try_def db_log_call db_step.unchanged)
        next
          case cc: (Inr c)
          show ?thesis
          proof (cases "createNote e (db s) t c i (cleanTags ss)")
            case (Inl x)
            with assms d True i v ct tt cc ss show ?thesis
              by (auto simp: postNote_try_def db_log_call db_step.unchanged)
          next
            case cn: (Inr nd)
            obtain n d' where nd: "nd = (n, d')"
              by (cases nd) auto
            from assms d True i v ct tt cc ss cn nd have "db s' = d'"
              by (auto simp: postNote_try_def db_log_call)
            with cn nd show ?thesis
              by (auto intro: db_step.note_created)
          qed
        qed
      qed
    qed
  qed
qed

lemma postNote_db_step:
  assumes "postNote e s body = (rep, s')"
  shows "db_step (db s) (db s')"
  using assms postNote_try_db_step[of e s body]
  by (auto simp: postNote_def split: prod.splits sum.splits)

lemma apiV1Routes_db_step:
  assumes "apiV1Routes e s r = (rep, s')"
  shows "db_step (db s) (db s')"
proof (cases r)
  case (POST_authors body)
  with assms show ?thesis by (simp add: postAuthor_db_step)
next
  case GET_authors
  with assms show ?thesis
    by (auto simp: listAuthors_handler_def Let_def db_log_call db_step.unchanged)
next
  case (GET_author i)
  with assms show ?thesis
    by (auto simp: getAuthor_handler_def Let_def db_log_call db_step.unchanged
        split: if_splits option.splits)
next
  case (POST_notes body)
  with assms show ?thesis by (simp add: postNote_db_step)
next
  case (GET_notes q)
  with assms show ?thesis
    by (cases q rule: tags_filter.cases)
      (auto simp: listNotes_handler_def listNotes_try_def Let_def db_log_call
        db_step.unchanged)
next
  case (GET_note i)
  with assms show ?thesis
    by (auto simp: getNote_handler_def Let_def db_log_call db_step.unchanged
        split: if_splits option.splits)
next
  case (PATCH_note i body)
  with assms show ?thesis by (simp add: patchNote_db_step)
qed


section \<open>Invariants of the reachable states\<close>

lemma cleanTags_entries_normal: "t \<in> set (cleanTags L) \<Longrightarrow> normal_form t"
  using cleanTags_entry[of t L] trim_fixed[of t] toLowerCase_fixed[of t]
  by (simp add: normal_form_def)

lemma db_step_wf:
  assumes "db_step d d'" "wf_database d"
  shows "wf_database d'"
  using assms
  by (cases rule: db_step.cases) (auto dest: createAuthor_wf(1) createNote_wf updateNote_wf)

lemma db_step_tags:
  assumes "db_step d d'"
  shows "\<exists>new. Tag d' = Tag d @ new \<and> (\<forall>t \<in> set new. normal_form (tag_name t))"
  using assms
proof (cases rule: db_step.cases)
  case unchanged
  then show ?thesis by simp
next
  case (author_created e name a)
  then show ?thesis
    by (auto simp: createAuthor_def Let_def split: if_splits)
next
  case (note_created e t c aid ss n)
  from createNote_frame(3)[OF this(1)] show ?thesis
    by (blast intro: cleanTags_entries_normal)
next
  case (note_updated e i u n)
  from updateNote_frame(8)[OF this(1)] obtain new where
    new: "Tag d' = Tag d @ new" "\<forall>names. data_tags u = Some names \<longrightarrow> tag_name ` set new \<subseteq> set names"
    by blast
  from note_updated(2) show ?thesis
  proof
    assume "data_tags u = None"
    with updateNote_frame(7)[OF note_updated(1)] show ?thesis
      by simp
  next
    assume "\<exists>ss. data_tags u = Some (cleanTags ss)"
    with new show ?thesis
      by (blast intro: cleanTags_entries_normal)
  qed
qed

lemma db_step_notes:
  assumes "db_step d d'"
  shows "\<exists>new. map (\<lambda>n. (note_id n, authorId n, createdAt n)) (Note d') =
                map (\<lambda>n. (note_id n, authorId n, createdAt n)) (Note d) @ new"
  using assms
proof (cases rule: db_step.cases)
  case unchanged
  then show ?thesis by simp
next
  case (author_created e name a)
  then show ?thesis
    by (auto simp: createAuthor_def Let_def split: if_splits)
next
  case (note_created e t c aid ss n)
  from createNote_frame(2)[OF this(1)] show ?thesis
    by auto
next
  case (note_updated e i u n)
  from updateNote_frame(2,3,4)[OF this(1)]
  have "map (\<lambda>n. (note_id n, authorId n, createdAt n)) (Note d') =
        map (\<lambda>n. (note_id n, authorId n, createdAt n)) (Note d)"
    by (simp add: list_eq_iff_nth_eq)
  then show ?thesis
    by simp
qed

lemma wf_empty_database: "wf_database empty_database" "tags_normal empty_database"
  by (simp_all add: wf_database_def empty_database_def tags_normal_def)

lemma reachable_invariant:
  assumes "reachable s"
  shows "wf_database (db s) \<and> tags_normal (db s)"
  using assms
proof (induction rule: reachable.induct)
  case initial
  then show ?case
    by (simp add: initial_state_def wf_empty_database)
next
  case (request s e r rep s')
  from apiV1Routes_db_step[OF request.hyps(2)] have step: "db_step (db s) (db s')" .
  from db_step_tags[OF step] request.IH have "tags_normal (db s')"
    by (auto simp: tags_normal_def list_all_iff)
  with db_step_wf[OF step] request.IH show ?case
    by simp
qed

lemma reachable_run: "reachable s \<Longrightarrow> reachable (run rs s)"
proof (induction rs arbitrary: s)
  case Nil
  then show ?case by simp
next
  case (Cons a rs)
  obtain e r where a: "a = (e, r)"
    by (cases a) auto
  have "reachable (snd (apiV1Routes e s r))"
    using Cons.prems by (rule reachable.request) (rule surjective_pairing)
  from Cons.IH[OF this] show ?case
    by (simp add: a)
qed

lemma reachable_example_state: "reachable example_state"
  unfolding example_state_def by (rule reachable_run) (rule reachable.initial)

text \<open>
  Claim C9. In every state reachable through the operations of the API, Tag names are
  globally unique (two distinct Tag rows never have the same name) and every stored
  Tag name is in normal form: non-empty, trimmed and lowercase.
\<close>

theorem tag_names_unique_and_normal:
  assumes "reachable s"
  shows "distinct (map tag_name (Tag (db s))) \<and>
    (\<forall>t \<in> set (Tag (db s)). \<forall>t' \<in> set (Tag (db s)). tag_name t = tag_name t' \<longrightarrow> t = t') \<and>
    (\<forall>t \<in> set (Tag (db s)).
       tag_name t \<noteq> [] \<and> trim (tag_name t) = tag_name t \<and>
       toLowerCase (tag_name t) = tag_name t)"
proof -
  from reachable_invariant[OF assms]
  have d: "distinct (map tag_name (Tag (db s)))" and n: "tags_normal (db s)"
    by (simp_all add: wf_database_def)
  from d have "\<forall>t \<in> set (Tag (db s)). \<forall>t' \<in> set (Tag (db s)). tag_name t = tag_name t' \<longrightarrow> t = t'"
    by (meson distinct_map inj_onD)
  with d n show ?thesis
    by (simp add: tags_normal_def list_all_iff normal_form_def)
qed

theorem tag_names_unique_and_normal_witness:
  "reachable example_state \<and>
   map tag_name (Tag (db example_state)) = [''testing'', ''vitest'', ''fastify'', ''other''] \<and>
   distinct [''testing'', ''vitest'', ''fastify'', ''other''] \<and>
   trim ''testing'' = ''testing'' \<and> toLowerCase ''testing'' = ''testing''"
proof -
  have m: "map tag_name (Tag (db example_state)) = [''testing'', ''vitest'', ''fastify'', ''other'']"
    by code_simp
  have i: "\<lparr>tag_id = ''t1'', tag_name = ''testing''\<rparr> \<in> set (Tag (db example_state))"
    by code_simp
  from tag_names_unique_and_normal[OF reachable_example_state] m i reachable_example_state
  show ?thesis
    by fastforce
qed

text \<open>
  Claim C8. A successful partial update changes only the fields present in the
  request body: with \<open>title\<close> absent every stored title is as before, with
  \<open>content\<close> absent every stored content is as before, with \<open>tags\<close> absent the
  tag associations (and the Tag rows) are as before. And no request to the API changes
  the \<open>authorId\<close> or the \<open>createdAt\<close> of an existing Note: the notes keep their
  identifiers, authors and creation times, in place, and new notes come after them.
\<close>

theorem partial_update_frame:
  "(patchNote e s i body = (rep, s') \<and> status rep = 200 \<longrightarrow>
      map note_id (Note (db s')) = map note_id (Note (db s)) \<and>
      (get_prop body ''title'' = None \<longrightarrow> map title (Note (db s')) = map title (Note (db s))) \<and>
      (get_prop body ''content'' = None \<longrightarrow>
         map content (Note (db s')) = map content (Note (db s))) \<and>
      (get_prop body ''tags'' = None \<longrightarrow>
         NoteToTag (db s') = NoteToTag (db s) \<and> Tag (db s') = Tag (db s))) \<and>
   (apiV1Routes e s r = (rep, s') \<longrightarrow>
      (\<exists>new. map (\<lambda>n. (note_id n, authorId n, createdAt n)) (Note (db s')) =
             map (\<lambda>n. (note_id n, authorId n, createdAt n)) (Note (db s)) @ new))"
proof -
  have "map note_id (Note (db s')) = map note_id (Note (db s)) \<and>
      (get_prop body ''title'' = None \<longrightarrow> map title (Note (db s')) = map title (Note (db s))) \<and>
      (get_prop body ''content'' = None \<longrightarrow>
         map content (Note (db s')) = map content (Note (db s))) \<and>
      (get_prop body ''tags'' = None \<longrightarrow>
         NoteToTag (db s') = NoteToTag (db s) \<and> Tag (db s') = Tag (db s))"
    if "patchNote e s i body = (rep, s')" "status rep = 200"
  proof -
    from patchNote_200[OF that] obtain u n where
      b: "buildNoteUpdateData body = Inr u" and up: "updateNote e (db s) i u = Inr (n, db s')"
      by blast
    from buildNoteUpdateData_fields[OF b] updateNote_frame(2,5,6,7)[OF up]
    show ?thesis
      by blast
  qed
  moreover have "\<exists>new. map (\<lambda>n. (note_id n, authorId n, createdAt n)) (Note (db s')) =
             map (\<lambda>n. (note_id n, authorId n, createdAt n)) (Note (db s)) @ new"
    if "apiV1Routes e s r = (rep, s')"
    using db_step_notes[OF apiV1Routes_db_step[OF that]] .
  ultimately show ?thesis
    by blast
qed


theorem partial_update_frame_witness:
  "status (fst (patchNote (example_env 5 []) example_state first_id
      (Some (JObj [(''content'', JStr '' Updated '')])))) = 200 \<and>
   get_prop (Some (JObj [(''content'', JStr '' Updated '')])) ''title'' = None \<and>
   get_prop (Some (JObj [(''content'', JStr '' Updated '')])) ''tags'' = None \<and>
   map title (Note (db (snd (patchNote (example_env 5 []) example_state first_id
      (Some (JObj [(''content'', JStr '' Updated '')])))))) = map title (Note (db example_state)) \<and>
   NoteToTag (db (snd (patchNote (example_env 5 []) example_state first_id
      (Some (JObj [(''content'', JStr '' Updated '')]))))) = NoteToTag (db example_state) \<and>
   map content (Note (db (snd (patchNote (example_env 5 []) example_state first_id
      (Some (JObj [(''content'', JStr '' Updated '')])))))) = [Some ''Updated'', None, None] \<and>
   map content (Note (db example_state)) = [Some ''This is a test note content'', None, None]"
proof -
  let ?b = "Some (JObj [(''content'', JStr '' Updated '')])"
  let ?out = "patchNote (example_env 5 []) example_state first_id ?b"
  have st: "status (fst ?out) = 200"
    by code_simp
  have p: "?out = (fst ?out, snd ?out)"
    by simp
  have g: "get_prop ?b ''title'' = None" "get_prop ?b ''tags'' = None"
    by simp_all
  have c: "map content (Note (db (snd ?out))) = [Some ''Updated'', None, None]"
    "map content (Note (db example_state)) = [Some ''This is a test note content'', None, None]"
    by code_simp+
  from partial_update_frame[of "example_env 5 []" example_state first_id ?b "fst ?out" "snd ?out"]
    p st g
  have "map title (Note (db (snd ?out))) = map title (Note (db example_state))"
    and "NoteToTag (db (snd ?out)) = NoteToTag (db example_state)"
    by blast+
  with st g c show ?thesis
    by blast
qed

section \<open>Replacing the tags of a note\<close>

lemma connectOrCreate_tag_ids:
  assumes "connectOrCreate new_id nid name d = Inr d'"
  shows "set (map tag_id (Tag d')) \<subseteq> insert new_id (set (map tag_id (Tag d)))"
  using assms
  by (auto simp: connectOrCreate_def split: option.splits if_splits)

lemma connectOrCreate_succeeds:
  assumes "new_id \<notin> set (map tag_id (Tag d))"
  shows "\<exists>d'. connectOrCreate new_id nid name d = Inr d'"
  using assms
  by (auto simp: connectOrCreate_def split: option.splits)

lemma connectOrCreate_all_succeeds:
  assumes "\<forall>j. k \<le> j \<and> j < k + length names \<longrightarrow> uuid e j \<notin> set (map tag_id (Tag d))"
    and "distinct (map (uuid e) [k..<k + length names])"
  shows "\<exists>d'. connectOrCreate_all e k nid names d = Inr d'"
  using assms
proof (induction names arbitrary: k d)
  case Nil
  then show ?case by simp
next
  case (Cons name names)
  from Cons.prems(1) have "uuid e k \<notin> set (map tag_id (Tag d))"
    by simp
  from connectOrCreate_succeeds[OF this] obtain d1
    where 1: "connectOrCreate (uuid e k) nid name d = Inr d1"
    by blast
  have range: "[k..<k + length (name # names)] = k # [Suc k..<Suc k + length names]"
    by (simp add: upt_rec)
  from Cons.prems(2)
  have "distinct (uuid e k # map (uuid e) [Suc k..<Suc k + length names])"
    by (simp only: range list.map)
  then have fresh: "uuid e k \<notin> set (map (uuid e) [Suc k..<Suc k + length names])"
    and dist: "distinct (map (uuid e) [Suc k..<Suc k + length names])"
    by (simp_all only: distinct.simps simp_thms)
  have "\<forall>j. Suc k \<le> j \<and> j < Suc k + length names \<longrightarrow> uuid e j \<notin> set (map tag_id (Tag d1))"
  proof (intro allI impI)
    fix j
    assume j: "Suc k \<le> j \<and> j < Suc k + length names"
    with Cons.prems(1) have "uuid e j \<notin> set (map tag_id (Tag d))"
      by simp
    moreover from j have "uuid e j \<in> set (map (uuid e) [Suc k..<Suc k + length names])"
      by (simp only: set_map set_upt) (auto intro!: imageI)
    with fresh have "uuid e j \<noteq> uuid e k"
      by metis
    ultimately show "uuid e j \<notin> set (map tag_id (Tag d1))"
      using connectOrCreate_tag_ids[OF 1] by auto
  qed
  from Cons.IH[OF this dist] 1 show ?case
    by simp
qed

lemma updateNote_succeeds:
  assumes "find (\<lambda>n. note_id n = i) (Note d) \<noteq> None"
    and "\<forall>names. data_tags u = Some names \<longrightarrow>
         (\<forall>j < length names. uuid e j \<notin> set (map tag_id (Tag d))) \<and>
         distinct (map (uuid e) [0..<length names])"
  shows "\<exists>n d'. updateNote e d i u = Inr (n, d')"
proof (cases "data_tags u")
  case None
  with assms(1) show ?thesis
    by (auto simp: updateNote_def Let_def)
next
  case (Some names)
  let ?d2 = "d\<lparr>Note := map (\<lambda>m. if note_id m = i then apply_fields e u m else m) (Note d),
               NoteToTag := filter (\<lambda>(a, b). a \<noteq> i) (NoteToTag d)\<rparr>"
  from assms(2) Some
  have "\<forall>j. 0 \<le> j \<and> j < 0 + length names \<longrightarrow> uuid e j \<notin> set (map tag_id (Tag ?d2))"
    and "distinct (map (uuid e) [0..<0 + length names])"
    by simp_all
  from connectOrCreate_all_succeeds[OF this, of i] obtain d'
    where "connectOrCreate_all e 0 i names ?d2 = Inr d'"
    by blast
  with assms(1) Some show ?thesis
    by (auto simp: updateNote_def Let_def)
qed

lemma patchNote_succeeds:
  assumes "isValidUUID i" "validateNotePatchRequest body = Inr ()"
    and "buildNoteUpdateData body = Inr u"
    and "find (\<lambda>n. note_id n = i) (Note (db s)) \<noteq> None"
    and "\<forall>names. data_tags u = Some names \<longrightarrow>
         (\<forall>j < length names. uuid e j \<notin> set (map tag_id (Tag (db s)))) \<and>
         distinct (map (uuid e) [0..<length names])"
  shows "status (fst (patchNote e s i body)) = 200"
proof -
  from updateNote_succeeds[OF assms(4,5)] obtain n d'
    where "updateNote e (db s) i u = Inr (n, d')"
    by blast
  with assms(1,2,3) show ?thesis
    by (simp add: patchNote_def patchNote_try_def Let_def db_log_call)
qed

text \<open>
  Claim C2. When a PATCH supplying the tag list \<open>T\<close> succeeds, the names of the Tags
  associated with the Note are exactly the normalized list \<open>cleanTags T\<close>, without
  duplicates, and they are the tags of the reply: every former association that is not
  in the cleaned list is gone. No Tag row is deleted, and the associations of the
  other notes are untouched. The update does succeed for a well-formed identifier of an
  existing Note and a body that passes validation, when the identifiers generated for
  new Tag rows are fresh.
\<close>

theorem update_replaces_tags:
  assumes "wf_database (db s)"
    and "get_prop body ''tags'' = Some (JArr ts)" "strings_of ts = Some T"
  shows
    "(patchNote e s i body = (rep, s') \<and> status rep = 200 \<longrightarrow>
        tag_name ` set (tags_of (db s') i) = set (cleanTags T) \<and>
        distinct (map tag_name (tags_of (db s') i)) \<and>
        (\<exists>n. rep = Reply 200 (NoteJson n) \<and> joined_tags n = tags_of (db s') i) \<and>
        (\<exists>new. Tag (db s') = Tag (db s) @ new) \<and>
        filter (\<lambda>(a, b). a \<noteq> i) (NoteToTag (db s')) =
          filter (\<lambda>(a, b). a \<noteq> i) (NoteToTag (db s)) \<and>
        wf_database (db s')) \<and>
     (isValidUUID i \<and> find (\<lambda>n. note_id n = i) (Note (db s)) \<noteq> None \<and>
      validateNotePatchRequest body = Inr () \<and> (\<exists>u. buildNoteUpdateData body = Inr u) \<and>
      (\<forall>j < length (cleanTags T). uuid e j \<notin> set (map tag_id (Tag (db s)))) \<and>
      distinct (map (uuid e) [0..<length (cleanTags T)]) \<longrightarrow>
        status (fst (patchNote e s i body)) = 200)"
proof (intro conjI impI)
  assume a: "patchNote e s i body = (rep, s') \<and> status rep = 200"
  with patchNote_200[of e s i body rep s'] obtain u n where
    b: "buildNoteUpdateData body = Inr u" and up: "updateNote e (db s) i u = Inr (n, db s')"
    and rep: "rep = Reply 200 (NoteJson n)"
    by blast
  from buildNoteUpdateData_fields[OF b] assms(2,3) have u: "data_tags u = Some (cleanTags T)"
    by auto
  from updateNote_tags[OF assms(1) up u]
  show "tag_name ` set (tags_of (db s') i) = set (cleanTags T)"
    and "\<exists>n. rep = Reply 200 (NoteJson n) \<and> joined_tags n = tags_of (db s') i"
    using rep by simp_all
  from updateNote_wf[OF assms(1) up] show wf': "wf_database (db s')" .
  then show "distinct (map tag_name (tags_of (db s') i))"
    by (simp add: wf_database_def tags_of_def distinct_map_filter)
  from updateNote_frame(8,9)[OF up]
  show "\<exists>new. Tag (db s') = Tag (db s) @ new"
    and "filter (\<lambda>(a, b). a \<noteq> i) (NoteToTag (db s')) =
          filter (\<lambda>(a, b). a \<noteq> i) (NoteToTag (db s))"
    by blast+
next
  assume a: "isValidUUID i \<and> find (\<lambda>n. note_id n = i) (Note (db s)) \<noteq> None \<and>
      validateNotePatchRequest body = Inr () \<and> (\<exists>u. buildNoteUpdateData body = Inr u) \<and>
      (\<forall>j < length (cleanTags T). uuid e j \<notin> set (map tag_id (Tag (db s)))) \<and>
      distinct (map (uuid e) [0..<length (cleanTags T)])"
  then obtain u where b: "buildNoteUpdateData body = Inr u"
    by blast
  from buildNoteUpdateData_fields[OF b] assms(2,3) have u: "data_tags u = Some (cleanTags T)"
    by auto
  with a have "\<forall>names. data_tags u = Some names \<longrightarrow>
         (\<forall>j < length names. uuid e j \<notin> set (map tag_id (Tag (db s)))) \<and>
         distinct (map (uuid e) [0..<length names])"
    by simp
  with a b show "status (fst (patchNote e s i body)) = 200"
    by (intro patchNote_succeeds) simp_all
qed


theorem update_replaces_tags_witness:
  "wf_database (db example_state) \<and>
   status (fst (patchNote (example_env 5 [''u0'', ''u1'']) example_state first_id
      (Some (JObj [(''tags'', JArr [JStr ''Updated'', JStr '' testing'', JStr ''updated''])])))) = 200 \<and>
   cleanTags [''Updated'', '' testing'', ''updated''] = [''updated'', ''testing''] \<and>
   map tag_name (tags_of (db example_state) first_id) = [''testing'', ''vitest'', ''fastify''] \<and>
   tag_name ` set (tags_of (db (snd (patchNote (example_env 5 [''u0'', ''u1'']) example_state
      first_id (Some (JObj [(''tags'', JArr [JStr ''Updated'', JStr '' testing'', JStr ''updated''])])))))
      first_id) = set [''updated'', ''testing''] \<and>
   map tag_name (Tag (db (snd (patchNote (example_env 5 [''u0'', ''u1'']) example_state
      first_id (Some (JObj [(''tags'', JArr [JStr ''Updated'', JStr '' testing'', JStr ''updated''])]))))))
     = [''testing'', ''vitest'', ''fastify'', ''other'', ''updated'']"
proof -
  let ?e = "example_env 5 [''u0'', ''u1'']"
  let ?ts = "[JStr ''Updated'', JStr '' testing'', JStr ''updated'']"
  let ?T = "[''Updated'', '' testing'', ''updated'']"
  let ?b = "Some (JObj [(''tags'', JArr ?ts)])"
  let ?out = "patchNote ?e example_state first_id ?b"
  have wf: "wf_database (db example_state)"
    using reachable_invariant[OF reachable_example_state] by simp
  have g: "get_prop ?b ''tags'' = Some (JArr ?ts)"
    by simp
  have st: "strings_of ?ts = Some ?T"
    by simp
  have c: "cleanTags ?T = [''updated'', ''testing'']"
    by code_simp
  have v: "isValidUUID first_id"
    by code_simp
  have f: "find (\<lambda>n. note_id n = first_id) (Note (db example_state)) \<noteq> None"
    by code_simp
  have va: "validateNotePatchRequest ?b = Inr ()"
    by code_simp
  have bu: "\<exists>u. buildNoteUpdateData ?b = Inr u"
    by (simp add: buildNoteUpdateData_def nullish_def cleanTags_value_def)
  have fresh: "\<forall>j < length (cleanTags ?T). uuid ?e j \<notin> set (map tag_id (Tag (db example_state)))"
  proof -
    have "uuid ?e 0 \<notin> set (map tag_id (Tag (db example_state)))"
      "uuid ?e 1 \<notin> set (map tag_id (Tag (db example_state)))"
      by code_simp+
    then show ?thesis
      unfolding c by (auto simp: less_Suc_eq)
  qed
  have dist: "distinct (map (uuid ?e) [0..<length (cleanTags ?T)])"
    unfolding c by (simp add: example_env_def upt_rec)
  note t = update_replaces_tags[OF wf g st, of ?e first_id "fst ?out" "snd ?out"]
  from t v f va bu fresh dist have ok: "status (fst ?out) = 200"
    by blast
  with t have "tag_name ` set (tags_of (db (snd ?out)) first_id) = set (cleanTags ?T)"
    by simp
  then have new: "tag_name ` set (tags_of (db (snd ?out)) first_id) = set [''updated'', ''testing'']"
    unfolding c .
  have old: "map tag_name (tags_of (db example_state) first_id) = [''testing'', ''vitest'', ''fastify'']"
    by code_simp
  have rows: "map tag_name (Tag (db (snd ?out))) =
      [''testing'', ''vitest'', ''fastify'', ''other'', ''updated'']"
    by code_simp
  from wf ok c old new rows show ?thesis
    by blast
qed

section \<open>Listing notes\<close>

lemma mset_orderBy_desc: "mset (orderBy_desc k xs) = mset xs"
  by (simp add: orderBy_desc_def)

lemma sorted_orderBy_desc: "sorted_wrt (\<lambda>a b. k b \<le> k a) (orderBy_desc k xs)"
proof -
  have "sorted (map k (sort_key k xs))"
    by (rule sorted_sort_key)
  then have "sorted_wrt (\<lambda>a b. k a \<le> k b) (sort_key k xs)"
    by (simp add: sorted_map)
  then show ?thesis
    by (simp add: orderBy_desc_def sorted_wrt_rev)
qed

lemma joined_note_include [simp]: "joined_note (include_relations d n) = n"
  by (simp add: include_relations_def)

lemma has_some_tag_iff:
  "has_some_tag d names n \<longleftrightarrow>
     (\<exists>t \<in> set (Tag d). (note_id n, tag_id t) \<in> set (NoteToTag d) \<and> tag_name t \<in> set names)"
  by (auto simp: has_some_tag_def tags_of_def list_ex_iff)

lemma listNotes_properties:
  "sorted_wrt (\<lambda>a b. createdAt (joined_note b) \<le> createdAt (joined_note a)) (listNotes d f)"
  "\<forall>j \<in> set (listNotes d f). j = include_relations d (joined_note j)"
  "mset (map joined_note (listNotes d f)) =
     mset (case f of None \<Rightarrow> Note d | Some names \<Rightarrow> filter (has_some_tag d names) (Note d))"
proof -
  let ?sel = "case f of None \<Rightarrow> Note d | Some names \<Rightarrow> filter (has_some_tag d names) (Note d)"
  have l: "listNotes d f = map (include_relations d) (orderBy_desc createdAt ?sel)"
    by (simp add: listNotes_def)
  show "sorted_wrt (\<lambda>a b. createdAt (joined_note b) \<le> createdAt (joined_note a)) (listNotes d f)"
    unfolding l using sorted_orderBy_desc[of createdAt ?sel] by (simp add: sorted_wrt_map)
  show "\<forall>j \<in> set (listNotes d f). j = include_relations d (joined_note j)"
    unfolding l by auto
  have "map joined_note (listNotes d f) = orderBy_desc createdAt ?sel"
    unfolding l by (simp add: comp_def)
  then show "mset (map joined_note (listNotes d f)) = mset ?sel"
    by (simp add: mset_orderBy_desc)
qed

lemma tags_filter_single:
  assumes "single_valued tags_q"
  shows "tags_filter tags_q = Inr (case tags_q of None \<Rightarrow> None
     | Some (QStr str) \<Rightarrow> if str = [] then None
         else Some (map (\<lambda>tag. trim (toLowerCase tag)) (split_comma str)))"
  using assms by (cases tags_q rule: tags_filter.cases) simp_all

text \<open>
  Claim C4, as stated, fails: it speaks of every list-notes request, and a request that
  repeats the parameter (\<open>?tags=testing&tags=other\<close>) hands the handler an array. The
  array is truthy, \<open>tags.split\<close> is not a function, and the \<open>catch\<close> answers 500 without
  querying the store, although the third note of the sample run carries both tags.
\<close>

theorem list_notes_filter_counterexample:
  "map tag_name (tags_of (db example_state) third_id) = [''testing'', ''other''] \<and>
   listNotes_handler example_state (Some (QArr [''testing'', ''other''])) =
     (Reply 500 (ErrorJson ''Internal Server Error'' ''Failed to fetch notes''), example_state)"
  by code_simp

text \<open>
  Claim C4, amended. For every state and every list-notes request whose \<open>tags\<close>
  parameter is absent or occurs once, which is what the declared type \<open>tags?: string\<close>
  admits, the reply is 200 with a list of Notes in descending order of \<open>createdAt\<close>,
  each joined with its Author and its Tags. With no \<open>tags\<close> parameter, or with the empty
  one (\<open>?tags=\<close>), these are all the Notes; with a non-empty one they are exactly the
  Notes having at least one Tag whose name is among the comma-split, lowercased and
  trimmed pieces of the parameter.
\<close>

theorem list_notes_filter:
  "single_valued tags_q \<longrightarrow>
   (\<exists>js. listNotes_handler s tags_q = (Reply 200 (NotesJson js), log_call NoteFindMany s) \<and>
     sorted_wrt (\<lambda>a b. createdAt (joined_note b) \<le> createdAt (joined_note a)) js \<and>
     (\<forall>j \<in> set js.
        joined_author j = find (\<lambda>a. author_id a = authorId (joined_note j)) (Author (db s)) \<and>
        joined_tags j =
          filter (\<lambda>t. (note_id (joined_note j), tag_id t) \<in> set (NoteToTag (db s))) (Tag (db s))) \<and>
     (tags_q = None \<or> tags_q = Some (QStr []) \<longrightarrow>
        mset (map joined_note js) = mset (Note (db s))) \<and>
     (\<forall>str. tags_q = Some (QStr str) \<and> str \<noteq> [] \<longrightarrow>
        mset (map joined_note js) =
        mset (filter
          (\<lambda>n. \<exists>t \<in> set (Tag (db s)).
             (note_id n, tag_id t) \<in> set (NoteToTag (db s)) \<and>
             tag_name t \<in> set (map (\<lambda>p. trim (toLowerCase p)) (split_comma str)))
          (Note (db s)))))"
proof
  assume single: "single_valued tags_q"
  define f where "f = (case tags_q of None \<Rightarrow> None
     | Some (QStr str) \<Rightarrow> if str = [] then None
         else Some (map (\<lambda>tag. trim (toLowerCase tag)) (split_comma str)))"
  let ?js = "listNotes (db s) f"
  have "tags_filter tags_q = Inr f"
    unfolding f_def using single by (rule tags_filter_single)
  then have h: "listNotes_handler s tags_q = (Reply 200 (NotesJson ?js), log_call NoteFindMany s)"
    by (simp add: listNotes_handler_def listNotes_try_def Let_def db_log_call)
  have j: "\<forall>j \<in> set ?js.
        joined_author j = find (\<lambda>a. author_id a = authorId (joined_note j)) (Author (db s)) \<and>
        joined_tags j =
          filter (\<lambda>t. (note_id (joined_note j), tag_id t) \<in> set (NoteToTag (db s))) (Tag (db s))"
  proof
    fix j
    assume "j \<in> set ?js"
    with listNotes_properties(2)[of "db s" f] have "j = include_relations (db s) (joined_note j)"
      by blast
    then show "joined_author j = find (\<lambda>a. author_id a = authorId (joined_note j)) (Author (db s)) \<and>
        joined_tags j =
          filter (\<lambda>t. (note_id (joined_note j), tag_id t) \<in> set (NoteToTag (db s))) (Tag (db s))"
      by (metis include_relations_def note_joined.sel(2,3) tags_of_def)
  qed
  have none: "mset (map joined_note ?js) = mset (Note (db s))"
    if "tags_q = None \<or> tags_q = Some (QStr [])"
    using that listNotes_properties(3)[of "db s" f] by (auto simp: f_def)
  have some: "mset (map joined_note ?js) =
        mset (filter
          (\<lambda>n. \<exists>t \<in> set (Tag (db s)).
             (note_id n, tag_id t) \<in> set (NoteToTag (db s)) \<and>
             tag_name t \<in> set (map (\<lambda>p. trim (toLowerCase p)) (split_comma str)))
          (Note (db s)))" if "tags_q = Some (QStr str) \<and> str \<noteq> []" for str
  proof -
    from that have "f = Some (map (\<lambda>p. trim (toLowerCase p)) (split_comma str))"
      by (simp add: f_def)
    with listNotes_properties(3)[of "db s" f] show ?thesis
      by (simp add: has_some_tag_iff[abs_def])
  qed
  from h listNotes_properties(1)[of "db s" f] j none some
  show "\<exists>js. listNotes_handler s tags_q = (Reply 200 (NotesJson js), log_call NoteFindMany s) \<and>
     sorted_wrt (\<lambda>a b. createdAt (joined_note b) \<le> createdAt (joined_note a)) js \<and>
     (\<forall>j \<in> set js.
        joined_author j = find (\<lambda>a. author_id a = authorId (joined_note j)) (Author (db s)) \<and>
        joined_tags j =
          filter (\<lambda>t. (note_id (joined_note j), tag_id t) \<in> set (NoteToTag (db s))) (Tag (db s))) \<and>
     (tags_q = None \<or> tags_q = Some (QStr []) \<longrightarrow>
        mset (map joined_note js) = mset (Note (db s))) \<and>
     (\<forall>str. tags_q = Some (QStr str) \<and> str \<noteq> [] \<longrightarrow>
        mset (map joined_note js) =
        mset (filter
          (\<lambda>n. \<exists>t \<in> set (Tag (db s)).
             (note_id n, tag_id t) \<in> set (NoteToTag (db s)) \<and>
             tag_name t \<in> set (map (\<lambda>p. trim (toLowerCase p)) (split_comma str)))
          (Note (db s))))"
    by blast
qed

theorem list_notes_filter_witness:
  "single_valued None \<and> single_valued (Some (QStr [])) \<and>
   single_valued (Some (QStr ''Testing, nothing'')) \<and>
   map tag_name (tags_of (db example_state) first_id) = [''testing'', ''vitest'', ''fastify''] \<and>
   map tag_name (tags_of (db example_state) second_id) = [''other''] \<and>
   map tag_name (tags_of (db example_state) third_id) = [''testing'', ''other''] \<and>
   map (\<lambda>p. trim (toLowerCase p)) (split_comma ''Testing, nothing'') = [''testing'', ''nothing''] \<and>
   map (\<lambda>j. note_id (joined_note j)) (listNotes (db example_state) (Some [''testing'', ''nothing'']))
     = [third_id, first_id] \<and>
   listNotes_handler example_state (Some (QStr ''Testing, nothing'')) =
     (Reply 200 (NotesJson (listNotes (db example_state) (Some [''testing'', ''nothing'']))),
      log_call NoteFindMany example_state) \<and>
   map (\<lambda>j. note_id (joined_note j)) (listNotes (db example_state) None)
     = [third_id, second_id, first_id] \<and>
   listNotes_handler example_state (Some (QStr [])) =
     (Reply 200 (NotesJson (listNotes (db example_state) None)),
      log_call NoteFindMany example_state) \<and>
   listNotes_handler example_state None =
     (Reply 200 (NotesJson (listNotes (db example_state) None)),
      log_call NoteFindMany example_state) \<and>
   mset (map joined_note (listNotes (db example_state) None)) = mset (Note (db example_state))"
proof -
  have single: "single_valued None" "single_valued (Some (QStr []))"
    "single_valued (Some (QStr ''Testing, nothing''))"
    by simp_all
  have pieces: "map (\<lambda>p. trim (toLowerCase p)) (split_comma ''Testing, nothing'') =
      [''testing'', ''nothing'']"
    by code_simp
  have tags: "map tag_name (tags_of (db example_state) first_id) = [''testing'', ''vitest'', ''fastify'']"
    "map tag_name (tags_of (db example_state) second_id) = [''other'']"
    "map tag_name (tags_of (db example_state) third_id) = [''testing'', ''other'']"
    by code_simp+
  have ids: "map (\<lambda>j. note_id (joined_note j))
      (listNotes (db example_state) (Some [''testing'', ''nothing''])) = [third_id, first_id]"
    "map (\<lambda>j. note_id (joined_note j)) (listNotes (db example_state) None)
      = [third_id, second_id, first_id]"
    by code_simp+
  have "tags_filter (Some (QStr ''Testing, nothing'')) = Inr (Some [''testing'', ''nothing''])"
    unfolding tags_filter.simps pieces by simp
  then have h: "listNotes_handler example_state (Some (QStr ''Testing, nothing'')) =
     (Reply 200 (NotesJson (listNotes (db example_state) (Some [''testing'', ''nothing'']))),
      log_call NoteFindMany example_state)"
    by (simp add: listNotes_handler_def listNotes_try_def Let_def db_log_call)
  have e: "listNotes_handler example_state (Some (QStr [])) =
     (Reply 200 (NotesJson (listNotes (db example_state) None)), log_call NoteFindMany example_state)"
    by (simp add: listNotes_handler_def listNotes_try_def Let_def db_log_call)
  have n: "listNotes_handler example_state None =
     (Reply 200 (NotesJson (listNotes (db example_state) None)), log_call NoteFindMany example_state)"
    by (simp add: listNotes_handler_def listNotes_try_def Let_def db_log_call)
  from list_notes_filter[of None example_state] single(1) n
  have "mset (map joined_note (listNotes (db example_state) None)) = mset (Note (db example_state))"
    by auto
  with single pieces tags ids h e n show ?thesis
    by blast
qed

end
